theory Spec2Isabelle
  imports Complex_Main "HOL-Library.Multiset"
begin

section \<open>Data model (types.ts)\<close>

text \<open>
  JavaScript numbers are modelled as reals; NaN and the infinities are outside the model.
  In the drag handler, where a claim depends on the rounding of IEEE doubles, every
  arithmetic result passes through a rounding function \<open>fl\<close> that the handler takes as a
  parameter. Record fields carry a prefix, since a field name is a global constant
  (\<open>id\<close>, \<open>x\<close>, \<open>y\<close> would capture variables).
\<close>

datatype ComplexityLevel = Executive_Summary | Operational | Analytical | Strategic

datatype VisualStyle =
    Modern_SaaS | Dark_Mode_Analytics | Financial_Traditional | Minimalist
  | Futuristic_HUD | Paper_Wireframe | Neumorphism | Isometric_3D | High_Contrast
  | Swiss_Design | Vintage_Terminal | Cyberpunk_Neon | Hand_Drawn_Sketch
  | Corporate_Clean | Data_Journalism | Glassmorphism

datatype FontWeight = Weight_normal | Weight_bold

datatype FontStyle = Style_normal | Style_italic

text \<open>\<open>interface Annotation\<close>; the optional \<open>fontWeight?\<close> and \<open>fontStyle?\<close> are options.\<close>

record Annotation =
  ann_id :: string
  ann_x :: real
  ann_y :: real
  ann_text :: string
  ann_color :: string
  ann_fontSize :: real
  ann_fontWeight :: "FontWeight option"
  ann_fontStyle :: "FontStyle option"

text \<open>\<open>interface Comment\<close>.\<close>

record Comment =
  com_id :: string
  com_x :: real
  com_y :: real
  com_text :: string
  com_author :: string
  com_resolved :: bool
  com_timestamp :: nat

text \<open>\<open>interface GeneratedImage\<close>: one history entry.\<close>

record GeneratedImage =
  img_id :: string
  img_data :: string
  img_prompt :: string
  img_timestamp :: nat
  img_level :: ComplexityLevel
  img_style :: VisualStyle

text \<open>
  \<open>Partial<Annotation>\<close>: every key may be absent (\<open>None\<close>). For the two optional
  fields a key can also be present with the value \<open>undefined\<close> (\<open>Some None\<close>).
\<close>

record AnnotationUpdates =
  upd_id :: "string option"
  upd_x :: "real option"
  upd_y :: "real option"
  upd_text :: "string option"
  upd_color :: "string option"
  upd_fontSize :: "real option"
  upd_fontWeight :: "FontWeight option option"
  upd_fontStyle :: "FontStyle option option"

section \<open>JavaScript array and number primitives\<close>

text \<open>\<open>Array.prototype.findIndex\<close>: the first index whose element satisfies the predicate, else -1.\<close>

fun findIndex :: "('a \<Rightarrow> bool) \<Rightarrow> 'a list \<Rightarrow> int" where
  "findIndex P [] = - 1"
| "findIndex P (a # as) =
     (if P a then 0
      else (let r = findIndex P as in if r = - 1 then - 1 else r + 1))"

text \<open>\<open>Array.prototype.find\<close>: the first element satisfying the predicate, else \<open>undefined\<close>.\<close>

fun find_first :: "('a \<Rightarrow> bool) \<Rightarrow> 'a list \<Rightarrow> 'a option" where
  "find_first P [] = None"
| "find_first P (a # as) = (if P a then Some a else find_first P as)"

text \<open>\<open>arr[index]\<close> for an integer index: \<open>undefined\<close> (\<open>None\<close>) outside \<open>0 .. length - 1\<close>.\<close>

definition js_index :: "'a list \<Rightarrow> int \<Rightarrow> 'a option" where
  "js_index arr index =
     (if 0 \<le> index \<and> index < int (length arr) then Some (arr ! nat index) else None)"

text \<open>\<open>const [item] = arr.splice(k, 1)\<close> for \<open>k\<close> in range: the removed element and the remaining array.\<close>

definition splice1 :: "nat \<Rightarrow> 'a list \<Rightarrow> 'a \<times> 'a list" where
  "splice1 k arr = (arr ! k, take k arr @ drop (Suc k) arr)"

text \<open>\<open>[arr[j], arr[k]] = [arr[k], arr[j]]\<close>: the right-hand side is read before either write.\<close>

definition swap_elems :: "nat \<Rightarrow> nat \<Rightarrow> 'a list \<Rightarrow> 'a list" where
  "swap_elems j k arr = (let vj = arr ! k; vk = arr ! j in (arr[j := vj])[k := vk])"

text \<open>\<open>Math.round\<close>: nearest integer, halves towards plus infinity.\<close>

definition Math_round :: "real \<Rightarrow> int" where
  "Math_round v = \<lfloor>v + 1 / 2\<rfloor>"

section \<open>Overlay store: z-order operations (DashboardCanvas.tsx)\<close>

text \<open>
  Each operation returns the list handed to \<open>onUpdateAnnotations\<close>, which the parent
  (\<open>Editor\<close>) wires to \<open>setAnnotations\<close>; on an early \<open>return\<close> the list stays as it is.
  The source's parameter \<open>id\<close> is written \<open>tid\<close>.
\<close>

definition bringToFront :: "string \<Rightarrow> Annotation list \<Rightarrow> Annotation list" where
  "bringToFront tid anns =
     (let index = findIndex (\<lambda>a. ann_id a = tid) anns in
      if index = - 1 \<or> index = int (length anns) - 1 then anns
      else (let (item, newAnns) = splice1 (nat index) anns in newAnns @ [item]))"

definition moveForward :: "string \<Rightarrow> Annotation list \<Rightarrow> Annotation list" where
  "moveForward tid anns =
     (let index = findIndex (\<lambda>a. ann_id a = tid) anns in
      if index = - 1 \<or> index = int (length anns) - 1 then anns
      else swap_elems (nat index) (nat (index + 1)) anns)"

definition moveBackward :: "string \<Rightarrow> Annotation list \<Rightarrow> Annotation list" where
  "moveBackward tid anns =
     (let index = findIndex (\<lambda>a. ann_id a = tid) anns in
      if index \<le> 0 then anns
      else swap_elems (nat index) (nat (index - 1)) anns)"

definition sendToBack :: "string \<Rightarrow> Annotation list \<Rightarrow> Annotation list" where
  "sendToBack tid anns =
     (let index = findIndex (\<lambda>a. ann_id a = tid) anns in
      if index = - 1 \<or> index = 0 then anns
      else (let (item, newAnns) = splice1 (nat index) anns in item # newAnns))"


text \<open>\<open>{ ...a, ...updates }\<close>: a key present in \<open>updates\<close> overrides, an absent one keeps the old value.\<close>

definition spread_updates :: "Annotation \<Rightarrow> AnnotationUpdates \<Rightarrow> Annotation" where
  "spread_updates a u =
     \<lparr> ann_id = (case upd_id u of None \<Rightarrow> ann_id a | Some v \<Rightarrow> v),
       ann_x = (case upd_x u of None \<Rightarrow> ann_x a | Some v \<Rightarrow> v),
       ann_y = (case upd_y u of None \<Rightarrow> ann_y a | Some v \<Rightarrow> v),
       ann_text = (case upd_text u of None \<Rightarrow> ann_text a | Some v \<Rightarrow> v),
       ann_color = (case upd_color u of None \<Rightarrow> ann_color a | Some v \<Rightarrow> v),
       ann_fontSize = (case upd_fontSize u of None \<Rightarrow> ann_fontSize a | Some v \<Rightarrow> v),
       ann_fontWeight = (case upd_fontWeight u of None \<Rightarrow> ann_fontWeight a | Some v \<Rightarrow> v),
       ann_fontStyle = (case upd_fontStyle u of None \<Rightarrow> ann_fontStyle a | Some v \<Rightarrow> v) \<rparr>"

definition updateAnnotation :: "string \<Rightarrow> AnnotationUpdates \<Rightarrow> Annotation list \<Rightarrow> Annotation list" where
  "updateAnnotation tid updates anns =
     map (\<lambda>a. if ann_id a = tid then spread_updates a updates else a) anns"

text \<open>The annotation \<open>handleImageClick\<close> creates with the text tool, its id and position given.\<close>

definition newAnnotation :: "string \<Rightarrow> real \<Rightarrow> real \<Rightarrow> Annotation" where
  "newAnnotation i px py =
     \<lparr> ann_id = i, ann_x = px, ann_y = py, ann_text = ''New Text'', ann_color = ''#1e3a8a'',
       ann_fontSize = 20, ann_fontWeight = Some Weight_bold, ann_fontStyle = None \<rparr>"

section \<open>Component state and the drag session (DashboardCanvas.tsx)\<close>

datatype Tool = Tool_none | Tool_text | Tool_comment

record Point =
  pt_x :: real
  pt_y :: real

text \<open>The cached bounding box \<open>dragRectRef.current\<close>.\<close>

record DragRect =
  rect_width :: real
  rect_height :: real
  rect_left :: real
  rect_top :: real

text \<open>\<open>localDragState\<close>: the live position shown while a drag is active.\<close>

record LocalDrag =
  drag_id :: string
  drag_x :: real
  drag_y :: real

record PointerEvent =
  clientX :: real
  clientY :: real

text \<open>
  The props \<open>annotations\<close> and \<open>comments\<close> (state lifted to \<open>Editor\<close>, written back through
  \<open>onUpdateAnnotations\<close> and \<open>onUpdateComments\<close>) together with the component's own state.
  A handler reads the state of the last render and returns the state of the next one.
\<close>

record CanvasState =
  annotations :: "Annotation list"
  comments :: "Comment list"
  activeTool :: Tool
  selectedAnnotationId :: "string option"
  isDragging :: bool
  dragStart :: Point
  initialAnnPos :: Point
  localDragState :: "LocalDrag option"
  dragRectRef :: "DragRect option"

definition GRID_SIZE :: real where
  "GRID_SIZE = 10"

text \<open>Truthiness of a \<open>string | null\<close>: \<open>null\<close> and the empty string are falsy.\<close>

definition truthy :: "string option \<Rightarrow> bool" where
  "truthy v = (case v of None \<Rightarrow> False | Some str \<Rightarrow> str \<noteq> [])"

text \<open>
  \<open>handlePointerDown\<close>; \<open>container\<close> is the bounding box of \<open>imageContainerRef.current\<close>,
  \<open>None\<close> when the ref is null.
\<close>

definition handlePointerDown ::
  "DragRect option \<Rightarrow> PointerEvent \<Rightarrow> string \<Rightarrow> CanvasState \<Rightarrow> CanvasState" where
  "handlePointerDown container e tid s =
     (if activeTool s \<noteq> Tool_none \<or> container = None then s
      else (case find_first (\<lambda>a. ann_id a = tid) (annotations s) of
              None \<Rightarrow> s
            | Some ann \<Rightarrow>
                s \<lparr> dragRectRef := container,
                    isDragging := True,
                    selectedAnnotationId := Some tid,
                    dragStart := \<lparr> pt_x = clientX e, pt_y = clientY e \<rparr>,
                    initialAnnPos := \<lparr> pt_x = ann_x ann, pt_y = ann_y ann \<rparr>,
                    localDragState := Some \<lparr> drag_id = tid, drag_x = ann_x ann, drag_y = ann_y ann \<rparr> \<rparr>))"

text \<open>
  The snapped pixel coordinate of one axis: \<open>Math.round(raw / GRID_SIZE) * GRID_SIZE\<close>.
  \<open>fl\<close> is the rounding that the engine applies to the result of each division,
  multiplication, addition and subtraction (round-to-nearest on doubles in a browser, the
  identity in exact arithmetic); \<open>Math.round\<close>, \<open>Math.max\<close> and \<open>Math.min\<close> are exact.
\<close>

definition snapped :: "(real \<Rightarrow> real) \<Rightarrow> real \<Rightarrow> real \<Rightarrow> real \<Rightarrow> real \<Rightarrow> real" where
  "snapped fl initialPercent extent client start =
     (let initialPixel = fl (fl (initialPercent / 100) * extent);
          delta = fl (client - start);
          raw = fl (initialPixel + delta)
      in fl (real_of_int (Math_round (fl (raw / GRID_SIZE))) * GRID_SIZE))"

text \<open>
  \<open>handlePointerMove\<close>, with the rounding \<open>fl\<close> of the engine's arithmetic. For a cached
  rect of zero width or height JavaScript divides to NaN or an infinity, which the reals
  do not have: the model is faithful for non-zero sizes and finite numbers.
\<close>

definition handlePointerMove :: "(real \<Rightarrow> real) \<Rightarrow> PointerEvent \<Rightarrow> CanvasState \<Rightarrow> CanvasState" where
  "handlePointerMove fl e s =
     (if \<not> isDragging s \<or> \<not> truthy (selectedAnnotationId s) then s
      else (case (dragRectRef s, selectedAnnotationId s) of
              (Some rect, Some sel) \<Rightarrow>
                (let snappedX = snapped fl (pt_x (initialAnnPos s)) (rect_width rect) (clientX e) (pt_x (dragStart s));
                     snappedY = snapped fl (pt_y (initialAnnPos s)) (rect_height rect) (clientY e) (pt_y (dragStart s));
                     newX = max 0 (min 100 (fl (fl (snappedX / rect_width rect) * 100)));
                     newY = max 0 (min 100 (fl (fl (snappedY / rect_height rect) * 100)))
                 in s \<lparr> localDragState := Some \<lparr> drag_id = sel, drag_x = newX, drag_y = newY \<rparr> \<rparr>)
            | _ \<Rightarrow> s))"

text \<open>\<open>handlePointerUp\<close>; releasing the pointer capture changes no state (its error is swallowed).\<close>

definition handlePointerUp :: "CanvasState \<Rightarrow> CanvasState" where
  "handlePointerUp s =
     (let s1 = (case (isDragging s, localDragState s, selectedAnnotationId s) of
                  (True, Some l, Some sel) \<Rightarrow>
                    (if sel \<noteq> [] then
                       s \<lparr> annotations :=
                             map (\<lambda>a. if ann_id a = sel then a \<lparr> ann_x := drag_x l, ann_y := drag_y l \<rparr> else a)
                                 (annotations s) \<rparr>
                     else s)
                | _ \<Rightarrow> s)
      in s1 \<lparr> isDragging := False, localDragState := None, dragRectRef := None \<rparr>)"

text \<open>The JSX wires \<open>onPointerCancel={handlePointerUp}\<close>.\<close>

definition onPointerCancel :: "CanvasState \<Rightarrow> CanvasState" where
  "onPointerCancel s = handlePointerUp s"

definition deleteAnnotation :: "string \<Rightarrow> CanvasState \<Rightarrow> CanvasState" where
  "deleteAnnotation tid s =
     s \<lparr> annotations := filter (\<lambda>a. ann_id a \<noteq> tid) (annotations s),
         selectedAnnotationId := None \<rparr>"

section \<open>Export compositor (DashboardCanvas.tsx)\<close>

text \<open>The CSS font shorthand \<open>`${style} ${weight} ${size}px sans-serif`\<close>, kept as its parts.\<close>

record FontSpec =
  font_style :: FontStyle
  font_weight :: FontWeight
  font_px :: real
  font_family :: string

text \<open>One \<open>fillText\<close> call together with the context properties in force when it runs.\<close>

record TextDraw =
  td_text :: string
  td_x :: real
  td_y :: real
  td_font :: FontSpec
  td_fillStyle :: string
  td_textBaseline :: string
  td_textAlign :: string

text \<open>What reaches the bitmap, in drawing order: later operations paint over earlier ones.\<close>

datatype DrawOp =
    FillRect string real real real real
  | DrawImage string real real
  | FillText TextDraw

text \<open>The 2D context: its settable properties and the operations drawn so far.\<close>

record Context2D =
  fillStyle :: string
  font :: FontSpec
  textBaseline :: string
  textAlign :: string
  drawn :: "DrawOp list"

record HTMLCanvas =
  canvas_width :: nat
  canvas_height :: nat
  canvas_ctx :: Context2D

text \<open>The decoded base image: \<open>img.naturalWidth\<close> and \<open>img.naturalHeight\<close>.\<close>

record LoadedImage =
  naturalWidth :: nat
  naturalHeight :: nat

text \<open>
  The result of an \<open>async\<close> function: it resolves, it rejects with a message, or it stays
  pending for ever (the \<open>onload\<close> promise has no \<open>onerror\<close> branch).
\<close>

datatype 'a Outcome = Returned 'a | Threw string | Pending

definition initial_ctx :: Context2D where
  "initial_ctx =
     \<lparr> fillStyle = ''#000000'',
       font = \<lparr> font_style = Style_normal, font_weight = Weight_normal, font_px = 10,
                font_family = ''sans-serif'' \<rparr>,
       textBaseline = ''alphabetic'', textAlign = ''start'', drawn = [] \<rparr>"

definition fillRect :: "real \<Rightarrow> real \<Rightarrow> real \<Rightarrow> real \<Rightarrow> Context2D \<Rightarrow> Context2D" where
  "fillRect rx ry rw rh c = c \<lparr> drawn := drawn c @ [FillRect (fillStyle c) rx ry rw rh] \<rparr>"

definition drawImage :: "string \<Rightarrow> real \<Rightarrow> real \<Rightarrow> Context2D \<Rightarrow> Context2D" where
  "drawImage src dx dy c = c \<lparr> drawn := drawn c @ [DrawImage src dx dy] \<rparr>"

definition fillText :: "string \<Rightarrow> real \<Rightarrow> real \<Rightarrow> Context2D \<Rightarrow> Context2D" where
  "fillText str tx ty c =
     c \<lparr> drawn := drawn c @
           [FillText \<lparr> td_text = str, td_x = tx, td_y = ty, td_font = font c,
                       td_fillStyle = fillStyle c, td_textBaseline = textBaseline c,
                       td_textAlign = textAlign c \<rparr>] \<rparr>"

text \<open>The body of \<open>annotations.forEach\<close> in \<open>generateCanvas\<close>, for a canvas of the given size.\<close>

definition drawAnnotation :: "nat \<Rightarrow> nat \<Rightarrow> Context2D \<Rightarrow> Annotation \<Rightarrow> Context2D" where
  "drawAnnotation cw ch c ann =
     (let px = (ann_x ann / 100) * real cw;
          py = (ann_y ann / 100) * real ch;
          scaleFactor = real cw / 800;
          fontSize = max 12 (ann_fontSize ann * scaleFactor);
          c1 = c \<lparr> font := \<lparr> font_style = (case ann_fontStyle ann of None \<Rightarrow> Style_normal | Some v \<Rightarrow> v),
                              font_weight = (case ann_fontWeight ann of None \<Rightarrow> Weight_normal | Some v \<Rightarrow> v),
                              font_px = fontSize, font_family = ''sans-serif'' \<rparr> \<rparr>;
          c2 = c1 \<lparr> fillStyle := ann_color ann \<rparr>;
          c3 = c2 \<lparr> textBaseline := ''middle'' \<rparr>;
          c4 = c3 \<lparr> textAlign := ''center'' \<rparr>
      in fillText (ann_text ann) px py c4)"

text \<open>
  \<open>generateCanvas\<close>. \<open>ctx_ok\<close> says whether \<open>getContext('2d')\<close> returned a context;
  \<open>loaded\<close> is the decoded image, \<open>None\<close> when \<open>onload\<close> never fires; \<open>base\<close> is the prop \<open>image\<close>.
\<close>

definition generateCanvas ::
  "bool \<Rightarrow> LoadedImage option \<Rightarrow> GeneratedImage \<Rightarrow> CanvasState \<Rightarrow> bool \<Rightarrow> HTMLCanvas Outcome" where
  "generateCanvas ctx_ok loaded base s fillBackground =
     (if \<not> ctx_ok then Threw ''Could not get canvas context''
      else (case loaded of
              None \<Rightarrow> Pending
            | Some img \<Rightarrow>
                (let cw = naturalWidth img;
                     ch = naturalHeight img;
                     c0 = initial_ctx;
                     c1 = (if fillBackground
                           then fillRect 0 0 (real cw) (real ch) (c0 \<lparr> fillStyle := ''#ffffff'' \<rparr>)
                           else c0);
                     c2 = drawImage (img_data base) 0 0 c1;
                     c3 = foldl (drawAnnotation cw ch) c2 (annotations s)
                 in Returned \<lparr> canvas_width = cw, canvas_height = ch, canvas_ctx = c3 \<rparr>)))"

datatype ExportFormat = Format_png | Format_jpg | Format_pdf

text \<open>
  What \<open>handleExport\<close> does with the bitmap: a download of the encoded canvas, a print
  window showing it (nothing when \<open>window.open\<close> gives no window), the alert of the
  \<open>catch\<close> branch, or no result while \<open>generateCanvas\<close> is pending.
\<close>

datatype ExportResult =
    Download string string HTMLCanvas
  | PrintWindow string HTMLCanvas
  | NoWindow
  | Alert string
  | NoResult

definition handleExport ::
  "bool \<Rightarrow> LoadedImage option \<Rightarrow> bool \<Rightarrow> GeneratedImage \<Rightarrow> CanvasState \<Rightarrow> ExportFormat \<Rightarrow> ExportResult" where
  "handleExport ctx_ok loaded win_ok base s format =
     (let withBackground = (format = Format_jpg \<or> format = Format_pdf) in
      case generateCanvas ctx_ok loaded base s withBackground of
        Threw msg \<Rightarrow> Alert ''Could not export image.''
      | Pending \<Rightarrow> NoResult
      | Returned canvas \<Rightarrow>
          (let mimeType = (if format = Format_jpg then ''image/jpeg'' else ''image/png'') in
           if format = Format_pdf
           then (if win_ok then PrintWindow mimeType canvas else NoWindow)
           else Download (if format = Format_jpg then ''dashboard_export.jpg'' else ''dashboard_export.png'')
                         mimeType canvas))"

text \<open>The bitmap an export hands out, if any.\<close>

fun exported_bitmap :: "ExportResult \<Rightarrow> HTMLCanvas option" where
  "exported_bitmap (Download name mime canvas) = Some canvas"
| "exported_bitmap (PrintWindow mime canvas) = Some canvas"
| "exported_bitmap other = None"

text \<open>The text draws among a list of operations, in order.\<close>

fun text_draws :: "DrawOp list \<Rightarrow> TextDraw list" where
  "text_draws [] = []"
| "text_draws (FillText t # ops) = t # text_draws ops"
| "text_draws (other # ops) = text_draws ops"

section \<open>History navigator (Editor.tsx)\<close>

text \<open>
  The state of \<open>Editor\<close> that the history handlers read or write. \<open>loadingMessage\<close>,
  \<open>analysisFacts\<close> and the persisted project are written only and left out.
\<close>

record EditorState =
  objective :: string
  level :: ComplexityLevel
  style :: VisualStyle
  isLoading :: bool
  loadingStep :: nat
  error :: "string option"
  history :: "GeneratedImage list"
  currentIndex :: int

text \<open>
  \<open>String.prototype.trim\<close> on the ASCII white space characters. The other characters
  that JavaScript strips (U+00A0, U+FEFF, U+2028, U+2029 and the Unicode space
  separators) are kept by the model, so its guard in \<open>handleGenerate\<close> lets through
  every state the code's guard lets through.
\<close>

definition is_space :: "char \<Rightarrow> bool" where
  "is_space c = (c \<in> set [CHR '' '', CHR 0x09, CHR 0x0A, CHR 0x0B, CHR 0x0C, CHR 0x0D])"

definition trim :: "string \<Rightarrow> string" where
  "trim str = rev (dropWhile is_space (rev (dropWhile is_space str)))"

text \<open>\<open>Number.prototype.toString\<close> of a natural number: its decimal digits.\<close>

fun toString :: "nat \<Rightarrow> string" where
  "toString n =
     (if n < 10 then [char_of (48 + n)]
      else toString (n div 10) @ [char_of (48 + n mod 10)])"

declare toString.simps [simp del]

text \<open>The \<open>finally\<close> block shared by \<open>handleGenerate\<close> and \<open>handleEdit\<close>.\<close>

definition finally_reset :: "EditorState \<Rightarrow> EditorState" where
  "finally_reset s = s \<lparr> isLoading := False, loadingStep := 0 \<rparr>"

text \<open>A \<open>catch\<close> block: \<open>setError(err.message || fallback)\<close>, then the \<open>finally\<close> block.\<close>

definition catch_error :: "string \<Rightarrow> string \<Rightarrow> EditorState \<Rightarrow> EditorState" where
  "catch_error fallback msg s =
     finally_reset (s \<lparr> error := Some (if msg = [] then fallback else msg) \<rparr>)"

text \<open>
  \<open>handleGenerate\<close>. The awaited calls are inputs: \<open>analysis\<close> and \<open>generated\<close> are the
  results of \<open>analyzeDashboardRequirements\<close> and \<open>generateDashboardImage\<close> (\<open>Inl\<close> the
  message of a rejection, \<open>Inr\<close> the value), \<open>saved\<close> the rejection of
  \<open>saveProjectState\<close> if any, \<open>now_id\<close> and \<open>now_ts\<close> the two readings of \<open>Date.now()\<close>.
\<close>

definition handleGenerate ::
  "string + unit \<Rightarrow> string + string \<Rightarrow> string option \<Rightarrow> nat \<Rightarrow> nat \<Rightarrow> EditorState \<Rightarrow> EditorState" where
  "handleGenerate analysis generated saved now_id now_ts s =
     (if isLoading s \<or> trim (objective s) = [] then s
      else (let s0 = s \<lparr> isLoading := True, loadingStep := 1, error := None \<rparr> in
            case analysis of
              Inl msg \<Rightarrow> catch_error ''Generation failed'' msg s0
            | Inr _ \<Rightarrow>
               (case generated of
                  Inl msg \<Rightarrow> catch_error ''Generation failed'' msg (s0 \<lparr> loadingStep := 3 \<rparr>)
                | Inr base64 \<Rightarrow>
                   (let newImage = \<lparr> img_id = toString now_id, img_data = base64,
                                     img_prompt = objective s, img_timestamp = now_ts,
                                     img_level = level s, img_style = style s \<rparr>;
                        newHistory = newImage # history s;
                        s1 = s0 \<lparr> loadingStep := 4, history := newHistory, currentIndex := 0 \<rparr>
                    in case saved of
                         Some msg \<Rightarrow> catch_error ''Generation failed'' msg s1
                       | None \<Rightarrow> finally_reset s1))))"

text \<open>
  \<open>handleEdit\<close>. Reading \<open>.data\<close> of an undefined \<open>history[currentIndex]\<close> throws a
  \<open>TypeError\<close> inside the \<open>try\<close>; \<open>edited\<close> is the result of \<open>editDashboardImage\<close>.
\<close>

definition handleEdit ::
  "string \<Rightarrow> string + string \<Rightarrow> string option \<Rightarrow> nat \<Rightarrow> nat \<Rightarrow> EditorState \<Rightarrow> EditorState" where
  "handleEdit editPrompt edited saved now_id now_ts s =
     (if length (history s) = 0 then s
      else (let s0 = s \<lparr> isLoading := True, loadingStep := 2 \<rparr> in
            case js_index (history s) (currentIndex s) of
              None \<Rightarrow> catch_error ''Edit failed'' ''Cannot read properties of undefined (reading 'data')'' s0
            | Some current \<Rightarrow>
               (case edited of
                  Inl msg \<Rightarrow> catch_error ''Edit failed'' msg s0
                | Inr base64 \<Rightarrow>
                   (let newImage = current \<lparr> img_id := toString now_id, img_data := base64,
                                            img_prompt := editPrompt, img_timestamp := now_ts \<rparr>;
                        newHistory = newImage # history s;
                        s1 = s0 \<lparr> loadingStep := 4, history := newHistory, currentIndex := 0 \<rparr>
                    in case saved of
                         Some msg \<Rightarrow> catch_error ''Edit failed'' msg s1
                       | None \<Rightarrow> finally_reset s1))))"

definition handleJumpToHistory :: "int \<Rightarrow> EditorState \<Rightarrow> EditorState" where
  "handleJumpToHistory index s =
     (let s1 = s \<lparr> currentIndex := index \<rparr> in
      case js_index (history s) index of
        None \<Rightarrow> s1
      | Some entry \<Rightarrow> s1 \<lparr> style := img_style entry, level := img_level entry \<rparr>)"

text \<open>
  The callers of \<open>handleJumpToHistory\<close>: the undo and redo buttons, disabled unless
  \<open>canUndo\<close> and \<open>canRedo\<close>, and one thumbnail button for each index of \<open>history\<close>.
\<close>

definition canUndo :: "EditorState \<Rightarrow> bool" where
  "canUndo s = (currentIndex s < int (length (history s)) - 1)"

definition canRedo :: "EditorState \<Rightarrow> bool" where
  "canRedo s = (currentIndex s > 0)"

definition onUndo :: "EditorState \<Rightarrow> EditorState" where
  "onUndo s = (if canUndo s then handleJumpToHistory (currentIndex s + 1) s else s)"

definition onRedo :: "EditorState \<Rightarrow> EditorState" where
  "onRedo s = (if canRedo s then handleJumpToHistory (currentIndex s - 1) s else s)"

definition onThumbnailClick :: "nat \<Rightarrow> EditorState \<Rightarrow> EditorState" where
  "onThumbnailClick k s = (if k < length (history s) then handleJumpToHistory (int k) s else s)"

section \<open>Properties named by the specification\<close>

text \<open>A pixel coordinate is an exact multiple of the grid size.\<close>

definition on_grid :: "real \<Rightarrow> bool" where
  "on_grid v = (real_of_int \<lfloor>v / GRID_SIZE\<rfloor> * GRID_SIZE = v)"

text \<open>
  What the claims use of a rounding: it is monotone and it is exact on the integers up to
  \<open>2^53\<close> in magnitude. Round-to-nearest on IEEE doubles has both properties, and so has
  the identity.
\<close>

definition double_like :: "(real \<Rightarrow> real) \<Rightarrow> bool" where
  "double_like fl \<longleftrightarrow>
     (\<forall>u v. u \<le> v \<longrightarrow> fl u \<le> fl v) \<and>
     (\<forall>k::int. \<bar>k\<bar> \<le> 2 ^ 53 \<longrightarrow> fl (real_of_int k) = real_of_int k)"

text \<open>
  The rounding of the value \<open>v\<close> has relative error at most \<open>eps\<close> (\<open>2^-53\<close> for a
  double in the normal range).
\<close>

definition rounds_within :: "(real \<Rightarrow> real) \<Rightarrow> real \<Rightarrow> real \<Rightarrow> bool" where
  "rounds_within fl eps v \<longleftrightarrow> \<bar>fl v - v\<bar> \<le> eps * \<bar>v\<bar>"

text \<open>The operations drawn into the bitmap that \<open>generateCanvas\<close> resolves to (none otherwise).\<close>

fun outcome_ops :: "HTMLCanvas Outcome \<Rightarrow> DrawOp list" where
  "outcome_ops (Returned canvas) = drawn (canvas_ctx canvas)"
| "outcome_ops other = []"

text \<open>The single \<open>fillText\<close> that \<open>drawAnnotation\<close> performs (lemma \<open>drawAnnotation_drawn\<close>).\<close>

definition label_draw :: "nat \<Rightarrow> nat \<Rightarrow> Annotation \<Rightarrow> TextDraw" where
  "label_draw cw ch ann =
     \<lparr> td_text = ann_text ann,
       td_x = (ann_x ann / 100) * real cw,
       td_y = (ann_y ann / 100) * real ch,
       td_font = \<lparr> font_style = (case ann_fontStyle ann of None \<Rightarrow> Style_normal | Some v \<Rightarrow> v),
                   font_weight = (case ann_fontWeight ann of None \<Rightarrow> Weight_normal | Some v \<Rightarrow> v),
                   font_px = max 12 (ann_fontSize ann * (real cw / 800)),
                   font_family = ''sans-serif'' \<rparr>,
       td_fillStyle = ann_color ann, td_textBaseline = ''middle'', td_textAlign = ''center'' \<rparr>"

section \<open>Example states\<close>

text \<open>Two labels and one comment pin on a canvas with no tool active and no drag under way.\<close>

definition example_canvas :: CanvasState where
  "example_canvas =
     \<lparr> annotations = [newAnnotation ''A'' 10 10, newAnnotation ''B'' 50 50],
       comments = [\<lparr> com_id = ''C'', com_x = 30, com_y = 30, com_text = ''check'',
                     com_author = ''You'', com_resolved = False, com_timestamp = 1 \<rparr>],
       activeTool = Tool_none, selectedAnnotationId = None, isDragging = False,
       dragStart = \<lparr> pt_x = 0, pt_y = 0 \<rparr>, initialAnnPos = \<lparr> pt_x = 0, pt_y = 0 \<rparr>,
       localDragState = None, dragRectRef = None \<rparr>"

definition example_rect :: "real \<Rightarrow> real \<Rightarrow> DragRect" where
  "example_rect w h = \<lparr> rect_width = w, rect_height = h, rect_left = 0, rect_top = 0 \<rparr>"

text \<open>The example canvas after pointer-down at \<open>(100, 100)\<close> on a label, in a container of the given size.\<close>

definition example_drag :: "real \<Rightarrow> real \<Rightarrow> string \<Rightarrow> CanvasState" where
  "example_drag w h tid =
     handlePointerDown (Some (example_rect w h)) \<lparr> clientX = 100, clientY = 100 \<rparr> tid example_canvas"

definition example_image :: "string \<Rightarrow> GeneratedImage" where
  "example_image i =
     \<lparr> img_id = i, img_data = ''data:image/png;base64,AAAA'', img_prompt = ''sales'',
       img_timestamp = 1, img_level = Analytical, img_style = Minimalist \<rparr>"

definition example_editor :: "GeneratedImage list \<Rightarrow> EditorState" where
  "example_editor h =
     \<lparr> objective = ''sales dashboard'', level = Operational, style = Modern_SaaS,
       isLoading = False, loadingStep = 0, error = None, history = h, currentIndex = 0 \<rparr>"

section \<open>Facts about the array primitives\<close>

lemma findIndex_bounds: "- 1 \<le> findIndex P xs \<and> findIndex P xs < int (length xs)"
  by (induction xs) (auto simp: Let_def)

lemma findIndex_none_iff: "findIndex P xs = - 1 \<longleftrightarrow> (\<forall>a \<in> set xs. \<not> P a)"
proof (induction xs)
  case Nil
  show ?case by simp
next
  case (Cons a xs)
  have "- 1 \<le> findIndex P xs" using findIndex_bounds [of P xs] by simp
  then have "findIndex P xs + 1 \<noteq> - 1" by arith
  with Cons show ?case by (auto simp: Let_def)
qed

lemma findIndex_first:
  assumes "\<forall>a \<in> set pre. \<not> P a" and "P b"
  shows "findIndex P (pre @ b # post) = int (length pre)"
  using assms by (induction pre) (auto simp: Let_def)

lemma findIndex_decomp:
  assumes "findIndex P xs \<noteq> - 1"
  shows "\<exists>pre b post. xs = pre @ b # post \<and> (\<forall>a \<in> set pre. \<not> P a) \<and> P b"
proof -
  from assms have "\<exists>a \<in> set xs. P a" by (simp add: findIndex_none_iff)
  then show ?thesis by (metis split_list_first_prop)
qed

lemma splice1_at: "splice1 (length pre) (pre @ b # post) = (b, pre @ post)"
  by (simp add: splice1_def)

lemma swap_elems_adjacent:
  "swap_elems (length pre) (Suc (length pre)) (pre @ b # c # post) = pre @ c # b # post"
  by (simp add: swap_elems_def Let_def list_update_append nth_append)

lemma swap_elems_adjacent':
  "swap_elems (Suc (length pre)) (length pre) (pre @ b # c # post) = pre @ c # b # post"
  by (simp add: swap_elems_def Let_def list_update_append nth_append)

lemma mset_swap_elems:
  "j < length xs \<Longrightarrow> k < length xs \<Longrightarrow> mset (swap_elems j k xs) = mset xs"
  using mset_swap [of k xs j] by (simp add: swap_elems_def Let_def)

section \<open>Closed forms of the z-order operations\<close>

lemma notfound_ops:
  assumes "\<forall>a \<in> set xs. ann_id a \<noteq> tid"
  shows "bringToFront tid xs = xs" "sendToBack tid xs = xs"
        "moveForward tid xs = xs" "moveBackward tid xs = xs"
proof -
  from assms have "findIndex (\<lambda>a. ann_id a = tid) xs = - 1"
    by (simp add: findIndex_none_iff)
  then show "bringToFront tid xs = xs" "sendToBack tid xs = xs"
        "moveForward tid xs = xs" "moveBackward tid xs = xs"
    by (simp_all add: bringToFront_def sendToBack_def moveForward_def moveBackward_def)
qed

lemma bringToFront_decomp:
  assumes "\<forall>a \<in> set pre. ann_id a \<noteq> tid" and "ann_id b = tid"
  shows "bringToFront tid (pre @ b # post) = pre @ post @ [b]"
proof -
  have ix: "findIndex (\<lambda>a. ann_id a = tid) (pre @ b # post) = int (length pre)"
    using assms by (intro findIndex_first) auto
  show ?thesis
  proof (cases post)
    case Nil
    with ix show ?thesis by (simp add: bringToFront_def)
  next
    case (Cons c cs)
    with ix show ?thesis
      by (simp add: bringToFront_def splice1_at)
  qed
qed

lemma sendToBack_decomp:
  assumes "\<forall>a \<in> set pre. ann_id a \<noteq> tid" and "ann_id b = tid"
  shows "sendToBack tid (pre @ b # post) = b # pre @ post"
proof -
  have ix: "findIndex (\<lambda>a. ann_id a = tid) (pre @ b # post) = int (length pre)"
    using assms by (intro findIndex_first) auto
  show ?thesis
  proof (cases "pre = []")
    case True
    with ix show ?thesis by (simp add: sendToBack_def)
  next
    case False
    then have "int (length pre) \<noteq> 0" by simp
    with ix show ?thesis
      by (simp add: sendToBack_def splice1_at)
  qed
qed

lemma moveForward_decomp:
  assumes "\<forall>a \<in> set pre. ann_id a \<noteq> tid" and "ann_id b = tid"
  shows "moveForward tid (pre @ b # c # post) = pre @ c # b # post"
proof -
  have ix: "findIndex (\<lambda>a. ann_id a = tid) (pre @ b # c # post) = int (length pre)"
    using assms by (intro findIndex_first) auto
  have "nat (int (length pre) + 1) = Suc (length pre)" by simp
  with ix show ?thesis
    by (simp add: moveForward_def swap_elems_adjacent del: of_nat_add)
qed

lemma moveForward_last:
  assumes "\<forall>a \<in> set pre. ann_id a \<noteq> tid" and "ann_id b = tid"
  shows "moveForward tid (pre @ [b]) = pre @ [b]"
proof -
  have ix: "findIndex (\<lambda>a. ann_id a = tid) (pre @ [b]) = int (length pre)"
    using assms by (intro findIndex_first) auto
  then show ?thesis by (simp add: moveForward_def)
qed

lemma moveBackward_decomp:
  assumes "\<forall>a \<in> set pre. ann_id a \<noteq> tid" and "ann_id c \<noteq> tid" and "ann_id b = tid"
  shows "moveBackward tid (pre @ c # b # post) = pre @ b # c # post"
proof -
  have "findIndex (\<lambda>a. ann_id a = tid) ((pre @ [c]) @ b # post) = int (length (pre @ [c]))"
    using assms by (intro findIndex_first) auto
  then have ix: "findIndex (\<lambda>a. ann_id a = tid) (pre @ c # b # post) = int (length pre) + 1"
    by simp
  have "nat (int (length pre) + 1) = Suc (length pre)" by simp
  with ix show ?thesis
    by (simp add: moveBackward_def swap_elems_adjacent' del: of_nat_add)
qed

lemma moveBackward_first:
  assumes "ann_id b = tid"
  shows "moveBackward tid (b # post) = b # post"
  using assms by (simp add: moveBackward_def)

section \<open>Z-order claims\<close>

lemma found_decomp:
  assumes "\<exists>a \<in> set xs. ann_id a = tid"
  obtains pre b post where "xs = pre @ b # post" "\<forall>a \<in> set pre. ann_id a \<noteq> tid" "ann_id b = tid"
proof -
  from assms obtain pre b post where "xs = pre @ b # post \<and> ann_id b = tid \<and> (\<forall>a \<in> set pre. \<not> ann_id a = tid)"
    using split_list_first_prop [of xs "\<lambda>a. ann_id a = tid"] by blast
  then show ?thesis using that by blast
qed

lemma mset_bringToFront: "mset (bringToFront tid xs) = mset xs"
proof (cases "\<exists>a \<in> set xs. ann_id a = tid")
  case True
  then obtain pre b post where "xs = pre @ b # post" "\<forall>a \<in> set pre. ann_id a \<noteq> tid" "ann_id b = tid"
    by (rule found_decomp)
  then show ?thesis by (simp add: bringToFront_decomp)
next
  case False
  then show ?thesis by (simp add: notfound_ops)
qed

lemma mset_sendToBack: "mset (sendToBack tid xs) = mset xs"
proof (cases "\<exists>a \<in> set xs. ann_id a = tid")
  case True
  then obtain pre b post where "xs = pre @ b # post" "\<forall>a \<in> set pre. ann_id a \<noteq> tid" "ann_id b = tid"
    by (rule found_decomp)
  then show ?thesis by (simp add: sendToBack_decomp)
next
  case False
  then show ?thesis by (simp add: notfound_ops)
qed

lemma mset_moveForward: "mset (moveForward tid xs) = mset xs"
proof (cases "\<exists>a \<in> set xs. ann_id a = tid")
  case True
  then obtain pre b post where d: "xs = pre @ b # post" "\<forall>a \<in> set pre. ann_id a \<noteq> tid" "ann_id b = tid"
    by (rule found_decomp)
  show ?thesis
  proof (cases post)
    case Nil
    with d show ?thesis by (simp add: moveForward_last)
  next
    case (Cons c cs)
    with d show ?thesis by (simp add: moveForward_decomp)
  qed
next
  case False
  then show ?thesis by (simp add: notfound_ops)
qed

lemma mset_moveBackward: "mset (moveBackward tid xs) = mset xs"
proof (cases "\<exists>a \<in> set xs. ann_id a = tid")
  case True
  then obtain pre b post where d: "xs = pre @ b # post" "\<forall>a \<in> set pre. ann_id a \<noteq> tid" "ann_id b = tid"
    by (rule found_decomp)
  show ?thesis
  proof (cases pre rule: rev_cases)
    case Nil
    with d show ?thesis by (simp add: moveBackward_first)
  next
    case (snoc cs c)
    with d have "moveBackward tid (cs @ c # b # post) = cs @ b # c # post"
      by (intro moveBackward_decomp) auto
    with d snoc show ?thesis by simp
  qed
next
  case False
  then show ?thesis by (simp add: notfound_ops)
qed

text \<open>
  Claim C10. Each z-order operation (\<open>bringToFront\<close>, \<open>sendToBack\<close>, \<open>moveForward\<close>,
  \<open>moveBackward\<close>) returns a permutation of its input, for every list and every id: the
  multiset of annotations, each with all its fields, is the same before and after, so
  nothing is added, removed, duplicated or modified.
\<close>

theorem zorder_permutation:
  "mset (bringToFront tid xs) = mset xs \<and> mset (sendToBack tid xs) = mset xs \<and>
   mset (moveForward tid xs) = mset xs \<and> mset (moveBackward tid xs) = mset xs"
  by (simp add: mset_bringToFront mset_sendToBack mset_moveForward mset_moveBackward)

theorem zorder_permutation_witness:
  "mset (bringToFront ''A'' [newAnnotation ''A'' 10 10, newAnnotation ''B'' 50 50, newAnnotation ''C'' 70 70])
     = mset [newAnnotation ''A'' 10 10, newAnnotation ''B'' 50 50, newAnnotation ''C'' 70 70] \<and>
   mset (sendToBack ''C'' [newAnnotation ''A'' 10 10, newAnnotation ''B'' 50 50, newAnnotation ''C'' 70 70])
     = mset [newAnnotation ''A'' 10 10, newAnnotation ''B'' 50 50, newAnnotation ''C'' 70 70] \<and>
   mset (moveForward ''A'' [newAnnotation ''A'' 10 10, newAnnotation ''B'' 50 50, newAnnotation ''C'' 70 70])
     = mset [newAnnotation ''A'' 10 10, newAnnotation ''B'' 50 50, newAnnotation ''C'' 70 70] \<and>
   mset (moveBackward ''C'' [newAnnotation ''A'' 10 10, newAnnotation ''B'' 50 50, newAnnotation ''C'' 70 70])
     = mset [newAnnotation ''A'' 10 10, newAnnotation ''B'' 50 50, newAnnotation ''C'' 70 70]"
proof -
  let ?xs = "[newAnnotation ''A'' 10 10, newAnnotation ''B'' 50 50, newAnnotation ''C'' 70 70]"
  from zorder_permutation [of "''A''" ?xs] zorder_permutation [of "''C''" ?xs]
  show ?thesis by blast
qed

lemma moveForward_moveBackward_succ:
  assumes "\<forall>a \<in> set pre. ann_id a \<noteq> tid" and "ann_id b = tid" and "ann_id c \<noteq> tid"
  shows "moveBackward tid (moveForward tid (pre @ b # c # post)) = pre @ b # c # post"
  using assms by (simp add: moveForward_decomp moveBackward_decomp)

text \<open>
  Claim C4, as the code has it. For a list with distinct ids and an id present in it:
  when the annotation is not already last, \<open>moveForward\<close> followed by \<open>moveBackward\<close>
  gives back the original list; when it is already last, \<open>moveForward\<close> is a no-op, so
  the \<open>moveBackward\<close> that follows is not undoing anything.
\<close>

theorem moveForward_moveBackward_roundtrip:
  assumes "distinct (map ann_id xs)" and "tid \<in> ann_id ` set xs"
  shows "(ann_id (last xs) \<noteq> tid \<longrightarrow> moveBackward tid (moveForward tid xs) = xs) \<and>
         (ann_id (last xs) = tid \<longrightarrow> moveForward tid xs = xs)"
proof -
  from assms(2) have "\<exists>a \<in> set xs. ann_id a = tid" by auto
  then obtain pre b post where d: "xs = pre @ b # post" "\<forall>a \<in> set pre. ann_id a \<noteq> tid" "ann_id b = tid"
    by (rule found_decomp)
  show ?thesis
  proof (cases post)
    case Nil
    with d show ?thesis by (simp add: moveForward_last)
  next
    case (Cons c cs)
    from assms(1) d Cons have c: "ann_id c \<noteq> tid" by auto
    from assms(1) d Cons have "ann_id (last xs) \<noteq> tid" by (cases cs rule: rev_cases) auto
    with d Cons c show ?thesis by (simp add: moveForward_moveBackward_succ)
  qed
qed

theorem moveForward_moveBackward_roundtrip_witness:
  "distinct (map ann_id [newAnnotation ''A'' 10 10, newAnnotation ''B'' 50 50, newAnnotation ''C'' 70 70]) \<and>
   ''A'' \<in> ann_id ` set [newAnnotation ''A'' 10 10, newAnnotation ''B'' 50 50, newAnnotation ''C'' 70 70] \<and>
   ann_id (last [newAnnotation ''A'' 10 10, newAnnotation ''B'' 50 50, newAnnotation ''C'' 70 70]) \<noteq> ''A'' \<and>
   moveBackward ''A'' (moveForward ''A'' [newAnnotation ''A'' 10 10, newAnnotation ''B'' 50 50, newAnnotation ''C'' 70 70])
     = [newAnnotation ''A'' 10 10, newAnnotation ''B'' 50 50, newAnnotation ''C'' 70 70]"
proof -
  let ?xs = "[newAnnotation ''A'' 10 10, newAnnotation ''B'' 50 50, newAnnotation ''C'' 70 70]"
  have d: "distinct (map ann_id ?xs)" by (simp add: newAnnotation_def)
  have m: "''A'' \<in> ann_id ` set ?xs" by (simp add: newAnnotation_def)
  have l: "ann_id (last ?xs) \<noteq> ''A''" by (simp add: newAnnotation_def)
  from moveForward_moveBackward_roundtrip [OF d m] l d m show ?thesis by blast
qed

text \<open>
  Claim C4 as stated fails for the topmost annotation: in \<open>[A, B]\<close> the label \<open>B\<close> is
  present and last, \<open>moveForward\<close> leaves the list alone and \<open>moveBackward\<close> then swaps.
\<close>

theorem moveForward_moveBackward_counterexample:
  "''B'' \<in> ann_id ` set [newAnnotation ''A'' 10 10, newAnnotation ''B'' 50 50] \<and>
   moveBackward ''B'' (moveForward ''B'' [newAnnotation ''A'' 10 10, newAnnotation ''B'' 50 50])
     = [newAnnotation ''B'' 50 50, newAnnotation ''A'' 10 10] \<and>
   moveBackward ''B'' (moveForward ''B'' [newAnnotation ''A'' 10 10, newAnnotation ''B'' 50 50])
     \<noteq> [newAnnotation ''A'' 10 10, newAnnotation ''B'' 50 50]"
  by (simp add: moveForward_def moveBackward_def swap_elems_def newAnnotation_def)

lemma filter_bringToFront:
  "filter (\<lambda>a. ann_id a \<noteq> tid) (bringToFront tid xs) = filter (\<lambda>a. ann_id a \<noteq> tid) xs"
proof (cases "\<exists>a \<in> set xs. ann_id a = tid")
  case True
  then obtain pre b post where "xs = pre @ b # post" "\<forall>a \<in> set pre. ann_id a \<noteq> tid" "ann_id b = tid"
    by (rule found_decomp)
  then show ?thesis by (simp add: bringToFront_decomp)
next
  case False
  then show ?thesis by (simp add: notfound_ops)
qed

lemma filter_sendToBack:
  "filter (\<lambda>a. ann_id a \<noteq> tid) (sendToBack tid xs) = filter (\<lambda>a. ann_id a \<noteq> tid) xs"
proof (cases "\<exists>a \<in> set xs. ann_id a = tid")
  case True
  then obtain pre b post where "xs = pre @ b # post" "\<forall>a \<in> set pre. ann_id a \<noteq> tid" "ann_id b = tid"
    by (rule found_decomp)
  then show ?thesis by (simp add: sendToBack_decomp)
next
  case False
  then show ?thesis by (simp add: notfound_ops)
qed

text \<open>
  Claim C5. \<open>bringToFront\<close> is a no-op when no annotation has the id; otherwise the
  first annotation with the id moves to the end and everything before and after it keeps
  its order (a no-op when it is already last). The annotations with other ids appear in
  the same order after \<open>bringToFront\<close>, and again after \<open>bringToFront\<close> followed by
  \<open>sendToBack\<close>; with the id unique, that composition puts the annotation first and the
  others behind it in their original order.
\<close>

theorem bringToFront_order:
  "((\<forall>a \<in> set xs. ann_id a \<noteq> tid) \<longrightarrow> bringToFront tid xs = xs) \<and>
   (\<forall>pre b post. xs = pre @ b # post \<and> (\<forall>a \<in> set pre. ann_id a \<noteq> tid) \<and> ann_id b = tid
       \<longrightarrow> bringToFront tid xs = pre @ post @ [b]) \<and>
   (\<forall>pre b. xs = pre @ [b] \<and> (\<forall>a \<in> set pre. ann_id a \<noteq> tid) \<and> ann_id b = tid
       \<longrightarrow> bringToFront tid xs = xs) \<and>
   filter (\<lambda>a. ann_id a \<noteq> tid) (bringToFront tid xs) = filter (\<lambda>a. ann_id a \<noteq> tid) xs \<and>
   filter (\<lambda>a. ann_id a \<noteq> tid) (sendToBack tid (bringToFront tid xs)) = filter (\<lambda>a. ann_id a \<noteq> tid) xs \<and>
   (\<forall>pre b post. xs = pre @ b # post \<and> (\<forall>a \<in> set (pre @ post). ann_id a \<noteq> tid) \<and> ann_id b = tid
       \<longrightarrow> sendToBack tid (bringToFront tid xs) = b # pre @ post)"
proof (intro conjI allI impI)
  show "bringToFront tid xs = xs" if "\<forall>a \<in> set xs. ann_id a \<noteq> tid"
    using that by (simp add: notfound_ops)
  show "bringToFront tid xs = pre @ post @ [b]"
    if "xs = pre @ b # post \<and> (\<forall>a \<in> set pre. ann_id a \<noteq> tid) \<and> ann_id b = tid" for pre b post
    using that by (simp add: bringToFront_decomp)
  show "bringToFront tid xs = xs"
    if "xs = pre @ [b] \<and> (\<forall>a \<in> set pre. ann_id a \<noteq> tid) \<and> ann_id b = tid" for pre b
    using that bringToFront_decomp [of pre tid b "[]"] by simp
  show "filter (\<lambda>a. ann_id a \<noteq> tid) (bringToFront tid xs) = filter (\<lambda>a. ann_id a \<noteq> tid) xs"
    by (rule filter_bringToFront)
  show "filter (\<lambda>a. ann_id a \<noteq> tid) (sendToBack tid (bringToFront tid xs)) = filter (\<lambda>a. ann_id a \<noteq> tid) xs"
    by (simp add: filter_bringToFront filter_sendToBack)
  show "sendToBack tid (bringToFront tid xs) = b # pre @ post"
    if h: "xs = pre @ b # post \<and> (\<forall>a \<in> set (pre @ post). ann_id a \<noteq> tid) \<and> ann_id b = tid" for pre b post
  proof -
    from h have "bringToFront tid xs = (pre @ post) @ b # []" by (simp add: bringToFront_decomp)
    moreover from h have "sendToBack tid ((pre @ post) @ b # []) = b # (pre @ post) @ []"
      by (intro sendToBack_decomp) auto
    ultimately show ?thesis by simp
  qed
qed

theorem bringToFront_order_witness:
  "bringToFront ''A'' [newAnnotation ''A'' 10 10, newAnnotation ''B'' 50 50, newAnnotation ''C'' 70 70]
     = [newAnnotation ''B'' 50 50, newAnnotation ''C'' 70 70, newAnnotation ''A'' 10 10] \<and>
   bringToFront ''Z'' [newAnnotation ''A'' 10 10, newAnnotation ''B'' 50 50, newAnnotation ''C'' 70 70]
     = [newAnnotation ''A'' 10 10, newAnnotation ''B'' 50 50, newAnnotation ''C'' 70 70] \<and>
   sendToBack ''B'' (bringToFront ''B'' [newAnnotation ''A'' 10 10, newAnnotation ''B'' 50 50, newAnnotation ''C'' 70 70])
     = [newAnnotation ''B'' 50 50, newAnnotation ''A'' 10 10, newAnnotation ''C'' 70 70]"
proof -
  let ?a = "newAnnotation ''A'' 10 10" and ?b = "newAnnotation ''B'' 50 50" and ?c = "newAnnotation ''C'' 70 70"
  have ids: "ann_id ?a = ''A''" "ann_id ?b = ''B''" "ann_id ?c = ''C''" by (simp_all add: newAnnotation_def)
  note front = bringToFront_order [of "[?a, ?b, ?c]" "''A''", THEN conjunct2, THEN conjunct1,
      rule_format, of "[]" ?a "[?b, ?c]"]
  note absent = bringToFront_order [of "[?a, ?b, ?c]" "''Z''", THEN conjunct1]
  note both = bringToFront_order [of "[?a, ?b, ?c]" "''B''", THEN conjunct2, THEN conjunct2,
      THEN conjunct2, THEN conjunct2, THEN conjunct2, rule_format, of "[?a]" ?b "[?c]"]
  have 1: "bringToFront ''A'' [?a, ?b, ?c] = [?b, ?c, ?a]"
    using front ids by simp
  have 2: "bringToFront ''Z'' [?a, ?b, ?c] = [?a, ?b, ?c]"
    using absent ids by simp
  have 3: "sendToBack ''B'' (bringToFront ''B'' [?a, ?b, ?c]) = [?b, ?a, ?c]"
    using both ids by simp
  from 1 2 3 show ?thesis by (intro conjI)
qed

section \<open>Drag session: snapping and clamping\<close>

lemma on_grid_iff: "on_grid v \<longleftrightarrow> (\<exists>k::int. v = real_of_int k * GRID_SIZE)"
proof
  assume "on_grid v"
  then show "\<exists>k::int. v = real_of_int k * GRID_SIZE"
    unfolding on_grid_def by metis
next
  assume "\<exists>k::int. v = real_of_int k * GRID_SIZE"
  then obtain k :: int where "v = real_of_int k * GRID_SIZE" ..
  then show "on_grid v" by (simp add: on_grid_def GRID_SIZE_def)
qed

lemma double_like_mono: "double_like fl \<Longrightarrow> u \<le> v \<Longrightarrow> fl u \<le> fl v"
  by (simp add: double_like_def)

lemma double_like_int: "double_like fl \<Longrightarrow> \<bar>k\<bar> \<le> 2 ^ 53 \<Longrightarrow> fl (real_of_int k) = real_of_int k"
  by (simp add: double_like_def)

lemma double_like_consts:
  assumes "double_like fl"
  shows "fl 0 = 0" "fl 1 = 1" "fl 100 = 100"
  using double_like_int [OF assms, of 0] double_like_int [OF assms, of 1]
    double_like_int [OF assms, of 100]
  by simp_all

lemma double_like_id: "double_like id"
  by (simp add: double_like_def)

lemma on_grid_snapped:
  assumes "double_like fl" and "\<bar>snapped fl p w c st\<bar> < 2 ^ 53"
  shows "on_grid (snapped fl p w c st)"
proof -
  define n where "n = Math_round (fl (fl (fl (fl (p / 100) * w) + fl (c - st)) / GRID_SIZE))"
  have sn: "snapped fl p w c st = fl (real_of_int (n * 10))"
    by (simp add: snapped_def n_def Let_def GRID_SIZE_def)
  have big: "fl (real_of_int (2 ^ 53)) = real_of_int (2 ^ 53)"
    and small: "fl (real_of_int (- (2 ^ 53))) = real_of_int (- (2 ^ 53))"
    using double_like_int [OF assms(1), of "2 ^ 53"] double_like_int [OF assms(1), of "- (2 ^ 53)"]
    by simp_all
  have "\<bar>n * 10\<bar> \<le> 2 ^ 53"
  proof (rule ccontr)
    assume "\<not> \<bar>n * 10\<bar> \<le> 2 ^ 53"
    then consider "2 ^ 53 \<le> n * 10" | "n * 10 \<le> - (2 ^ 53)" by linarith
    then show False
    proof cases
      case 1
      then have "real_of_int (2 ^ 53) \<le> real_of_int (n * 10)" by (simp only: of_int_le_iff)
      then have "fl (real_of_int (2 ^ 53)) \<le> fl (real_of_int (n * 10))"
        by (rule double_like_mono [OF assms(1)])
      with big sn assms(2) show False by simp
    next
      case 2
      then have "real_of_int (n * 10) \<le> real_of_int (- (2 ^ 53))" by (simp only: of_int_le_iff)
      then have "fl (real_of_int (n * 10)) \<le> fl (real_of_int (- (2 ^ 53)))"
        by (rule double_like_mono [OF assms(1)])
      with small sn assms(2) show False by simp
    qed
  qed
  then have "fl (real_of_int (n * 10)) = real_of_int (n * 10)"
    by (rule double_like_int [OF assms(1)])
  with sn have "snapped fl p w c st = real_of_int n * GRID_SIZE" by (simp add: GRID_SIZE_def)
  then show ?thesis unfolding on_grid_iff by blast
qed

lemma live_axis_range:
  fixes t :: real
  shows "0 \<le> max 0 (min 100 t)" "max 0 (min 100 t) \<le> 100"
  by simp_all

lemma live_axis_far:
  fixes w sx :: real
  assumes "double_like fl" and "0 < w" and "w \<le> sx"
  shows "max 0 (min 100 (fl (fl (sx / w) * 100))) = 100"
proof -
  from assms(2,3) have "1 \<le> sx / w" by simp
  then have "fl 1 \<le> fl (sx / w)" by (rule double_like_mono [OF assms(1)])
  then have "100 \<le> fl (sx / w) * 100" using double_like_consts(2) [OF assms(1)] by simp
  then have "fl 100 \<le> fl (fl (sx / w) * 100)" by (rule double_like_mono [OF assms(1)])
  then have "100 \<le> fl (fl (sx / w) * 100)" using double_like_consts(3) [OF assms(1)] by simp
  then show ?thesis by simp
qed

lemma live_axis_near:
  fixes w sx :: real
  assumes "double_like fl" and "0 < w" and "sx \<le> 0"
  shows "max 0 (min 100 (fl (fl (sx / w) * 100))) = 0"
proof -
  from assms(2,3) have "sx / w \<le> 0" by (simp add: divide_le_0_iff)
  then have "fl (sx / w) \<le> fl 0" by (rule double_like_mono [OF assms(1)])
  then have "fl (sx / w) * 100 \<le> 0" using double_like_consts(1) [OF assms(1)] by simp
  then have "fl (fl (sx / w) * 100) \<le> fl 0" by (rule double_like_mono [OF assms(1)])
  then have "fl (fl (sx / w) * 100) \<le> 0" using double_like_consts(1) [OF assms(1)] by simp
  then show ?thesis by simp
qed

lemma live_axis_inside:
  fixes w sx :: real
  assumes "double_like fl" and "0 < w" and "0 \<le> sx" and "sx \<le> w"
  shows "max 0 (min 100 (fl (fl (sx / w) * 100))) = fl (fl (sx / w) * 100)"
    and "0 \<le> fl (sx / w)"
proof -
  from assms(2,3) have a0: "0 \<le> sx / w" by simp
  from assms(2,4) have a1: "sx / w \<le> 1" by simp
  from a0 have "fl 0 \<le> fl (sx / w)" by (rule double_like_mono [OF assms(1)])
  then show b0: "0 \<le> fl (sx / w)" using double_like_consts(1) [OF assms(1)] by simp
  from a1 have "fl (sx / w) \<le> fl 1" by (rule double_like_mono [OF assms(1)])
  then have b1: "fl (sx / w) \<le> 1" using double_like_consts(2) [OF assms(1)] by simp
  from b0 have "0 \<le> fl (sx / w) * 100" by simp
  then have "fl 0 \<le> fl (fl (sx / w) * 100)" by (rule double_like_mono [OF assms(1)])
  then have c0: "0 \<le> fl (fl (sx / w) * 100)" using double_like_consts(1) [OF assms(1)] by simp
  from b1 have "fl (sx / w) * 100 \<le> 100" by simp
  then have "fl (fl (sx / w) * 100) \<le> fl 100" by (rule double_like_mono [OF assms(1)])
  then have c1: "fl (fl (sx / w) * 100) \<le> 100" using double_like_consts(3) [OF assms(1)] by simp
  from c0 c1 show "max 0 (min 100 (fl (fl (sx / w) * 100))) = fl (fl (sx / w) * 100)" by simp
qed

lemma live_axis_error:
  fixes w sx eps :: real
  assumes dl: "double_like fl" and w: "0 < w" and s0: "0 \<le> sx" and s1: "sx \<le> w" and e0: "0 \<le> eps"
    and r1: "rounds_within fl eps (sx / w)"
    and r2: "rounds_within fl eps (fl (sx / w) * 100)"
  shows "\<bar>(max 0 (min 100 (fl (fl (sx / w) * 100))) / 100) * w - sx\<bar> \<le> (2 * eps + eps\<^sup>2) * sx"
proof -
  define a where "a = sx / w"
  define b where "b = fl a"
  define c where "c = fl (b * 100)"
  have v: "max 0 (min 100 (fl (fl (sx / w) * 100))) = c" and b0: "0 \<le> b"
    using live_axis_inside [OF dl w s0 s1] by (simp_all add: a_def b_def c_def)
  have a0: "0 \<le> a" using w s0 by (simp add: a_def)
  have sx: "sx = w * a" using w by (simp add: a_def)
  from r1 have "\<bar>b - a\<bar> \<le> eps * \<bar>a\<bar>" unfolding rounds_within_def a_def b_def .
  with a0 have d1: "\<bar>b - a\<bar> \<le> eps * a" by simp
  from r2 have "\<bar>c - b * 100\<bar> \<le> eps * \<bar>b * 100\<bar>" unfolding rounds_within_def a_def b_def c_def .
  with b0 have d2: "\<bar>c - b * 100\<bar> \<le> eps * (b * 100)" by (simp add: abs_mult)
  from d1 have "b \<le> a + eps * a" by linarith
  then have "eps * b \<le> eps * (a + eps * a)" using e0 by (rule mult_left_mono)
  then have eb: "eps * b \<le> eps * a + eps\<^sup>2 * a" by (simp add: algebra_simps power2_eq_square)
  have "c / 100 - a = (c - b * 100) / 100 + (b - a)" by (simp add: diff_divide_distrib)
  then have "\<bar>c / 100 - a\<bar> = \<bar>(c - b * 100) / 100 + (b - a)\<bar>" by (simp only:)
  also have "\<dots> \<le> \<bar>(c - b * 100) / 100\<bar> + \<bar>b - a\<bar>" by (rule abs_triangle_ineq)
  also have "\<dots> = \<bar>c - b * 100\<bar> / 100 + \<bar>b - a\<bar>" by simp
  also have "\<dots> \<le> eps * b + eps * a" using d1 d2 by simp
  also have "\<dots> \<le> (2 * eps + eps\<^sup>2) * a" using eb by (simp add: algebra_simps)
  finally have "w * \<bar>c / 100 - a\<bar> \<le> w * ((2 * eps + eps\<^sup>2) * a)"
    using w by (simp add: mult_left_mono)
  moreover have "\<bar>(c / 100) * w - sx\<bar> = w * \<bar>c / 100 - a\<bar>"
  proof -
    have "(c / 100) * w - sx = w * (c / 100 - a)" by (simp add: sx algebra_simps)
    then show ?thesis using w by (simp add: abs_mult)
  qed
  moreover have "w * ((2 * eps + eps\<^sup>2) * a) = (2 * eps + eps\<^sup>2) * sx" by (simp add: sx)
  ultimately show ?thesis unfolding v by simp
qed

lemma handlePointerMove_active:
  assumes "isDragging s" "truthy (selectedAnnotationId s)" "dragRectRef s = Some rect"
  shows "\<exists>sel. selectedAnnotationId s = Some sel \<and> localDragState (handlePointerMove fl e s) =
     Some \<lparr> drag_id = sel,
            drag_x = max 0 (min 100 (fl (fl (snapped fl (pt_x (initialAnnPos s)) (rect_width rect) (clientX e) (pt_x (dragStart s)) / rect_width rect) * 100))),
            drag_y = max 0 (min 100 (fl (fl (snapped fl (pt_y (initialAnnPos s)) (rect_height rect) (clientY e) (pt_y (dragStart s)) / rect_height rect) * 100))) \<rparr>"
  using assms by (auto simp: handlePointerMove_def truthy_def Let_def split: option.splits)


text \<open>
  Claim C3, as the code has it. For an active drag whose cached rect has positive width
  and height, every pointer-move yields a live position within \<open>[0,100]\<close> on both axes,
  whatever the rounding of the arithmetic. For a rounding that is monotone and exact on
  the integers up to \<open>2^53\<close> (as that of doubles is), on each axis: the snapped pixel
  value the handler computes is an exact multiple of the grid size (below \<open>2^53\<close>); when
  it lies at or beyond the far edge of the container the live coordinate is exactly 100,
  which converts back to the container's width or height and not to the snapped value;
  when it lies at or before the near edge the live coordinate is exactly 0; in between,
  the clamp is idle and the back-conversion \<open>(value / 100) * extent\<close>, taken exactly,
  differs from the snapped value by at most \<open>(2 * eps + eps^2)\<close> times that value,
  \<open>eps\<close> bounding the relative error of the two roundings of \<open>(snapped / extent) * 100\<close>.
\<close>

theorem handlePointerMove_livePosition:
  fixes fl :: "real \<Rightarrow> real" and e :: PointerEvent and s :: CanvasState and rect :: DragRect
  defines "sx \<equiv> snapped fl (pt_x (initialAnnPos s)) (rect_width rect) (clientX e) (pt_x (dragStart s))"
    and "sy \<equiv> snapped fl (pt_y (initialAnnPos s)) (rect_height rect) (clientY e) (pt_y (dragStart s))"
  assumes "isDragging s" and "truthy (selectedAnnotationId s)" and "dragRectRef s = Some rect"
    and "0 < rect_width rect" and "0 < rect_height rect"
  shows "\<exists>l. localDragState (handlePointerMove fl e s) = Some l \<and>
           0 \<le> drag_x l \<and> drag_x l \<le> 100 \<and> 0 \<le> drag_y l \<and> drag_y l \<le> 100 \<and>
           (double_like fl \<longrightarrow>
              (\<bar>sx\<bar> < 2 ^ 53 \<longrightarrow> on_grid sx) \<and>
              (\<bar>sy\<bar> < 2 ^ 53 \<longrightarrow> on_grid sy) \<and>
              (rect_width rect \<le> sx \<longrightarrow> drag_x l = 100) \<and>
              (rect_height rect \<le> sy \<longrightarrow> drag_y l = 100) \<and>
              (sx \<le> 0 \<longrightarrow> drag_x l = 0) \<and>
              (sy \<le> 0 \<longrightarrow> drag_y l = 0) \<and>
              (\<forall>eps. 0 \<le> eps \<and> 0 \<le> sx \<and> sx \<le> rect_width rect \<and>
                     rounds_within fl eps (sx / rect_width rect) \<and>
                     rounds_within fl eps (fl (sx / rect_width rect) * 100) \<longrightarrow>
                 \<bar>(drag_x l / 100) * rect_width rect - sx\<bar> \<le> (2 * eps + eps\<^sup>2) * sx) \<and>
              (\<forall>eps. 0 \<le> eps \<and> 0 \<le> sy \<and> sy \<le> rect_height rect \<and>
                     rounds_within fl eps (sy / rect_height rect) \<and>
                     rounds_within fl eps (fl (sy / rect_height rect) * 100) \<longrightarrow>
                 \<bar>(drag_y l / 100) * rect_height rect - sy\<bar> \<le> (2 * eps + eps\<^sup>2) * sy))"
proof -
  define vx where "vx = max 0 (min 100 (fl (fl (sx / rect_width rect) * 100)))"
  define vy where "vy = max 0 (min 100 (fl (fl (sy / rect_height rect) * 100)))"
  from handlePointerMove_active [OF assms(3-5), of fl e] obtain sel where
    l: "localDragState (handlePointerMove fl e s) = Some \<lparr> drag_id = sel, drag_x = vx, drag_y = vy \<rparr>"
    by (auto simp: sx_def sy_def vx_def vy_def)
  have range: "0 \<le> vx" "vx \<le> 100" "0 \<le> vy" "vy \<le> 100"
    by (simp_all add: vx_def vy_def)
  have rest: "(\<bar>sx\<bar> < 2 ^ 53 \<longrightarrow> on_grid sx) \<and>
      (\<bar>sy\<bar> < 2 ^ 53 \<longrightarrow> on_grid sy) \<and>
      (rect_width rect \<le> sx \<longrightarrow> vx = 100) \<and>
      (rect_height rect \<le> sy \<longrightarrow> vy = 100) \<and>
      (sx \<le> 0 \<longrightarrow> vx = 0) \<and>
      (sy \<le> 0 \<longrightarrow> vy = 0) \<and>
      (\<forall>eps. 0 \<le> eps \<and> 0 \<le> sx \<and> sx \<le> rect_width rect \<and>
             rounds_within fl eps (sx / rect_width rect) \<and>
             rounds_within fl eps (fl (sx / rect_width rect) * 100) \<longrightarrow>
         \<bar>(vx / 100) * rect_width rect - sx\<bar> \<le> (2 * eps + eps\<^sup>2) * sx) \<and>
      (\<forall>eps. 0 \<le> eps \<and> 0 \<le> sy \<and> sy \<le> rect_height rect \<and>
             rounds_within fl eps (sy / rect_height rect) \<and>
             rounds_within fl eps (fl (sy / rect_height rect) * 100) \<longrightarrow>
         \<bar>(vy / 100) * rect_height rect - sy\<bar> \<le> (2 * eps + eps\<^sup>2) * sy)"
    if dl: "double_like fl"
  proof (intro conjI allI impI)
    show "on_grid sx" if "\<bar>sx\<bar> < 2 ^ 53"
      using that unfolding sx_def by (rule on_grid_snapped [OF dl])
    show "on_grid sy" if "\<bar>sy\<bar> < 2 ^ 53"
      using that unfolding sy_def by (rule on_grid_snapped [OF dl])
    show "vx = 100" if "rect_width rect \<le> sx"
      unfolding vx_def using dl assms(6) that by (rule live_axis_far)
    show "vy = 100" if "rect_height rect \<le> sy"
      unfolding vy_def using dl assms(7) that by (rule live_axis_far)
    show "vx = 0" if "sx \<le> 0"
      unfolding vx_def using dl assms(6) that by (rule live_axis_near)
    show "vy = 0" if "sy \<le> 0"
      unfolding vy_def using dl assms(7) that by (rule live_axis_near)
    show "\<bar>(vx / 100) * rect_width rect - sx\<bar> \<le> (2 * eps + eps\<^sup>2) * sx"
      if "0 \<le> eps \<and> 0 \<le> sx \<and> sx \<le> rect_width rect \<and>
             rounds_within fl eps (sx / rect_width rect) \<and>
             rounds_within fl eps (fl (sx / rect_width rect) * 100)" for eps
      unfolding vx_def using that live_axis_error [OF dl assms(6), of sx eps] by blast
    show "\<bar>(vy / 100) * rect_height rect - sy\<bar> \<le> (2 * eps + eps\<^sup>2) * sy"
      if "0 \<le> eps \<and> 0 \<le> sy \<and> sy \<le> rect_height rect \<and>
             rounds_within fl eps (sy / rect_height rect) \<and>
             rounds_within fl eps (fl (sy / rect_height rect) * 100)" for eps
      unfolding vy_def using that live_axis_error [OF dl assms(7), of sy eps] by blast
  qed
  from l range rest show ?thesis by simp
qed


lemma example_drag_state:
  "example_drag w h ''A'' =
     example_canvas \<lparr> dragRectRef := Some (example_rect w h), isDragging := True,
        selectedAnnotationId := Some ''A'', dragStart := \<lparr> pt_x = 100, pt_y = 100 \<rparr>,
        initialAnnPos := \<lparr> pt_x = 10, pt_y = 10 \<rparr>,
        localDragState := Some \<lparr> drag_id = ''A'', drag_x = 10, drag_y = 10 \<rparr> \<rparr>"
  "example_drag w h ''B'' =
     example_canvas \<lparr> dragRectRef := Some (example_rect w h), isDragging := True,
        selectedAnnotationId := Some ''B'', dragStart := \<lparr> pt_x = 100, pt_y = 100 \<rparr>,
        initialAnnPos := \<lparr> pt_x = 50, pt_y = 50 \<rparr>,
        localDragState := Some \<lparr> drag_id = ''B'', drag_x = 50, drag_y = 50 \<rparr> \<rparr>"
  by (simp_all add: example_drag_def handlePointerDown_def example_canvas_def newAnnotation_def)

theorem handlePointerMove_livePosition_witness:
  "isDragging (example_drag 1000 500 ''A'') \<and> truthy (selectedAnnotationId (example_drag 1000 500 ''A'')) \<and>
   dragRectRef (example_drag 1000 500 ''A'') = Some (example_rect 1000 500) \<and>
   0 < rect_width (example_rect 1000 500) \<and> 0 < rect_height (example_rect 1000 500) \<and>
   double_like id \<and>
   snapped id (pt_x (initialAnnPos (example_drag 1000 500 ''A''))) (rect_width (example_rect 1000 500))
     (clientX \<lparr> clientX = 150, clientY = 125 \<rparr>) (pt_x (dragStart (example_drag 1000 500 ''A''))) = 150 \<and>
   snapped id (pt_x (initialAnnPos (example_drag 1000 500 ''A''))) (rect_width (example_rect 1000 500))
     (clientX \<lparr> clientX = 1500, clientY = 125 \<rparr>) (pt_x (dragStart (example_drag 1000 500 ''A''))) = 1500 \<and>
   snapped id (pt_x (initialAnnPos (example_drag 1000 500 ''A''))) (rect_width (example_rect 1000 500))
     (clientX \<lparr> clientX = - 400, clientY = 125 \<rparr>) (pt_x (dragStart (example_drag 1000 500 ''A''))) = - 400 \<and>
   (\<exists>l. localDragState (handlePointerMove id \<lparr> clientX = 150, clientY = 125 \<rparr> (example_drag 1000 500 ''A'')) = Some l \<and>
        0 \<le> drag_x l \<and> drag_x l \<le> 100 \<and> 0 \<le> drag_y l \<and> drag_y l \<le> 100 \<and>
        on_grid 150 \<and> \<bar>(drag_x l / 100) * rect_width (example_rect 1000 500) - 150\<bar> \<le> 0) \<and>
   (\<exists>l. localDragState (handlePointerMove id \<lparr> clientX = 1500, clientY = 125 \<rparr> (example_drag 1000 500 ''A'')) = Some l \<and>
        drag_x l = 100) \<and>
   (\<exists>l. localDragState (handlePointerMove id \<lparr> clientX = - 400, clientY = 125 \<rparr> (example_drag 1000 500 ''A'')) = Some l \<and>
        drag_x l = 0)"
proof -
  let ?r = "example_rect 1000 500"
  let ?s = "example_drag 1000 500 ''A''"
  let ?e1 = "\<lparr> clientX = 150, clientY = 125 \<rparr>"
  let ?e2 = "\<lparr> clientX = 1500, clientY = 125 \<rparr>"
  let ?e3 = "\<lparr> clientX = - 400, clientY = 125 \<rparr>"
  note st = example_drag_state(1) [of 1000 500]
  have h1: "isDragging ?s" and h2: "truthy (selectedAnnotationId ?s)" and h3: "dragRectRef ?s = Some ?r"
    unfolding st by (simp_all add: truthy_def)
  have h4: "0 < rect_width ?r" and h5: "0 < rect_height ?r" by (simp_all add: example_rect_def)
  have dl: "double_like id" by (simp add: double_like_def)
  have s1: "snapped id (pt_x (initialAnnPos ?s)) (rect_width ?r) (clientX ?e1) (pt_x (dragStart ?s)) = 150"
    unfolding st by (simp add: example_rect_def snapped_def Math_round_def GRID_SIZE_def Let_def)
  have s2: "snapped id (pt_x (initialAnnPos ?s)) (rect_width ?r) (clientX ?e2) (pt_x (dragStart ?s)) = 1500"
    unfolding st by (simp add: example_rect_def snapped_def Math_round_def GRID_SIZE_def Let_def)
  have s3: "snapped id (pt_x (initialAnnPos ?s)) (rect_width ?r) (clientX ?e3) (pt_x (dragStart ?s)) = - 400"
    unfolding st by (simp add: example_rect_def snapped_def Math_round_def GRID_SIZE_def Let_def)
  have w: "rect_width ?r = 1000" by (simp add: example_rect_def)
  from handlePointerMove_livePosition [where fl = id and e = ?e1, OF h1 h2 h3 h4 h5]
  obtain l1 where l1: "localDragState (handlePointerMove id ?e1 ?s) = Some l1"
    and r1: "0 \<le> drag_x l1" "drag_x l1 \<le> 100" "0 \<le> drag_y l1" "drag_y l1 \<le> 100"
    and g1: "double_like id \<longrightarrow> (\<bar>150::real\<bar> < 2 ^ 53 \<longrightarrow> on_grid 150)"
    and b1: "double_like id \<longrightarrow> (\<forall>eps. 0 \<le> eps \<and> 0 \<le> (150::real) \<and> 150 \<le> rect_width ?r \<and>
                     rounds_within id eps (150 / rect_width ?r) \<and>
                     rounds_within id eps (id (150 / rect_width ?r) * 100) \<longrightarrow>
                 \<bar>(drag_x l1 / 100) * rect_width ?r - 150\<bar> \<le> (2 * eps + eps\<^sup>2) * 150)"
    unfolding s1 by blast
  from g1 dl have og: "on_grid 150" by simp
  from b1 dl have "0 \<le> (0::real) \<and> 0 \<le> (150::real) \<and> 150 \<le> rect_width ?r \<and>
                     rounds_within id 0 (150 / rect_width ?r) \<and>
                     rounds_within id 0 (id (150 / rect_width ?r) * 100) \<longrightarrow>
                 \<bar>(drag_x l1 / 100) * rect_width ?r - 150\<bar> \<le> (2 * 0 + 0\<^sup>2) * 150"
    by blast
  then have e1: "\<bar>(drag_x l1 / 100) * rect_width ?r - 150\<bar> \<le> 0"
    by (simp add: w rounds_within_def)
  from handlePointerMove_livePosition [where fl = id and e = ?e2, OF h1 h2 h3 h4 h5]
  obtain l2 where l2: "localDragState (handlePointerMove id ?e2 ?s) = Some l2"
    and f2: "double_like id \<longrightarrow> (rect_width ?r \<le> 1500 \<longrightarrow> drag_x l2 = 100)"
    unfolding s2 by blast
  from f2 dl w have x2: "drag_x l2 = 100" by simp
  from handlePointerMove_livePosition [where fl = id and e = ?e3, OF h1 h2 h3 h4 h5]
  obtain l3 where l3: "localDragState (handlePointerMove id ?e3 ?s) = Some l3"
    and f3: "double_like id \<longrightarrow> ((- 400::real) \<le> 0 \<longrightarrow> drag_x l3 = 0)"
    unfolding s3 by blast
  from f3 dl have x3: "drag_x l3 = 0" by simp
  have p1: "\<exists>l. localDragState (handlePointerMove id ?e1 ?s) = Some l \<and>
        0 \<le> drag_x l \<and> drag_x l \<le> 100 \<and> 0 \<le> drag_y l \<and> drag_y l \<le> 100 \<and>
        on_grid 150 \<and> \<bar>(drag_x l / 100) * rect_width ?r - 150\<bar> \<le> 0"
    using l1 r1 og e1 by (intro exI [of _ l1] conjI)
  have p2: "\<exists>l. localDragState (handlePointerMove id ?e2 ?s) = Some l \<and> drag_x l = 100"
    using l2 x2 by (intro exI [of _ l2] conjI)
  have p3: "\<exists>l. localDragState (handlePointerMove id ?e3 ?s) = Some l \<and> drag_x l = 0"
    using l3 x3 by (intro exI [of _ l3] conjI)
  from h1 h2 h3 h4 h5 dl s1 s2 s3 p1 p2 p3 show ?thesis by (intro conjI)
qed

text \<open>
  Claim C3 as stated fails when the clamp applies: in a container 805 pixels wide, a
  label at 50 percent dragged 500 pixels to the right snaps to pixel 900, is clamped to
  100 percent, and 100 percent of 805 pixels is not a multiple of 10. Every number on the
  way is computed without rounding error, here with exact arithmetic.
\<close>

theorem handlePointerMove_livePosition_counterexample:
  "isDragging (handlePointerDown (Some (example_rect 805 600)) \<lparr> clientX = 100, clientY = 100 \<rparr> ''B'' example_canvas) \<and>
   dragRectRef (handlePointerDown (Some (example_rect 805 600)) \<lparr> clientX = 100, clientY = 100 \<rparr> ''B'' example_canvas)
     = Some (example_rect 805 600) \<and>
   localDragState (handlePointerMove id \<lparr> clientX = 600, clientY = 100 \<rparr>
       (handlePointerDown (Some (example_rect 805 600)) \<lparr> clientX = 100, clientY = 100 \<rparr> ''B'' example_canvas))
     = Some \<lparr> drag_id = ''B'', drag_x = 100, drag_y = 50 \<rparr> \<and>
   \<not> on_grid ((100 / 100) * rect_width (example_rect 805 600))"
proof -
  let ?r = "example_rect 805 600"
  let ?s = "handlePointerDown (Some ?r) \<lparr> clientX = 100, clientY = 100 \<rparr> ''B'' example_canvas"
  have st: "?s = example_canvas \<lparr> dragRectRef := Some ?r, isDragging := True, selectedAnnotationId := Some ''B'',
        dragStart := \<lparr> pt_x = 100, pt_y = 100 \<rparr>, initialAnnPos := \<lparr> pt_x = 50, pt_y = 50 \<rparr>,
        localDragState := Some \<lparr> drag_id = ''B'', drag_x = 50, drag_y = 50 \<rparr> \<rparr>"
    by (simp add: handlePointerDown_def example_canvas_def newAnnotation_def)
  have 1: "isDragging ?s" and 2: "dragRectRef ?s = Some ?r" unfolding st by simp_all
  have 3: "localDragState (handlePointerMove id \<lparr> clientX = 600, clientY = 100 \<rparr> ?s)
     = Some \<lparr> drag_id = ''B'', drag_x = 100, drag_y = 50 \<rparr>"
    unfolding st
    by (simp add: handlePointerMove_def truthy_def example_rect_def snapped_def Math_round_def
        GRID_SIZE_def Let_def)
  have 4: "\<not> on_grid ((100 / 100) * rect_width ?r)"
    by (simp add: on_grid_def GRID_SIZE_def example_rect_def)
  from 1 2 3 4 show ?thesis by (intro conjI)
qed

text \<open>
  The same drag under any rounding that is monotone, exact on the integers up to \<open>2^53\<close>
  and exact on the four halves and quarters that occur (all of them doubles): the live
  position is again \<open>(100, 50)\<close>.
\<close>

lemma clamp_example_any_rounding:
  assumes dl: "double_like fl"
    and ex: "fl (1 / 2) = 1 / 2" "fl (805 / 2) = 805 / 2" "fl (1805 / 2) = 1805 / 2" "fl (361 / 4) = 361 / 4"
  shows "localDragState (handlePointerMove fl \<lparr> clientX = 600, clientY = 100 \<rparr> (example_drag 805 600 ''B''))
     = Some \<lparr> drag_id = ''B'', drag_x = 100, drag_y = 50 \<rparr>"
proof -
  have ints: "fl 0 = 0" "fl 30 = 30" "fl 50 = 50" "fl 300 = 300" "fl 500 = 500" "fl 900 = 900"
    using double_like_int [OF dl, of 0] double_like_int [OF dl, of 30] double_like_int [OF dl, of 50]
      double_like_int [OF dl, of 300] double_like_int [OF dl, of 500] double_like_int [OF dl, of 900]
    by simp_all
  have sx: "snapped fl 50 805 600 100 = 900"
    by (simp add: snapped_def Math_round_def GRID_SIZE_def Let_def ex ints)
  have sy: "snapped fl 50 600 100 100 = 300"
    by (simp add: snapped_def Math_round_def GRID_SIZE_def Let_def ex ints)
  have x: "max 0 (min 100 (fl (fl (180 / 161) * 100))) = 100"
    using live_axis_far [OF dl, of 161 180] by simp
  have y: "max 0 (min 100 (fl (fl (1 / 2) * 100))) = 50"
    by (simp add: ex ints)
  show ?thesis
    unfolding example_drag_state(2)
    by (simp add: handlePointerMove_def truthy_def example_rect_def Let_def sx sy x y)
qed

section \<open>Drag session: cancelling\<close>

text \<open>
  Claim C2, as the code has it. Pointer-cancel runs the handler of pointer-up. The
  session is always discarded (no drag, no live position, no cached rect). When a
  session with a live position and a selected annotation is active, that live position
  is committed: the annotations with the selected id get its x and y, every other field
  and every other annotation stays as it is; the list then stays the same exactly if
  every annotation with the selected id already has that x and y. When there is no drag,
  no live position or no selected annotation, the annotation list is left unchanged.
\<close>

theorem onPointerCancel_commits_live_position:
  "onPointerCancel s = handlePointerUp s \<and>
   \<not> isDragging (onPointerCancel s) \<and> localDragState (onPointerCancel s) = None \<and>
   dragRectRef (onPointerCancel s) = None \<and>
   (\<forall>l sel. isDragging s \<and> localDragState s = Some l \<and> selectedAnnotationId s = Some sel \<and> sel \<noteq> [] \<longrightarrow>
      annotations (onPointerCancel s) =
        map (\<lambda>a. if ann_id a = sel then a \<lparr> ann_x := drag_x l, ann_y := drag_y l \<rparr> else a) (annotations s)) \<and>
   (\<not> isDragging s \<or> localDragState s = None \<or> \<not> truthy (selectedAnnotationId s) \<longrightarrow>
      annotations (onPointerCancel s) = annotations s) \<and>
   (\<forall>l sel. isDragging s \<and> localDragState s = Some l \<and> selectedAnnotationId s = Some sel \<and> sel \<noteq> [] \<longrightarrow>
      (annotations (onPointerCancel s) = annotations s \<longleftrightarrow>
         (\<forall>a \<in> set (annotations s). ann_id a = sel \<longrightarrow> ann_x a = drag_x l \<and> ann_y a = drag_y l)))"
proof -
  have commit: "annotations (onPointerCancel s) =
        map (\<lambda>a. if ann_id a = sel then a \<lparr> ann_x := drag_x l, ann_y := drag_y l \<rparr> else a) (annotations s)"
    if "isDragging s \<and> localDragState s = Some l \<and> selectedAnnotationId s = Some sel \<and> sel \<noteq> []" for l sel
    using that by (simp add: onPointerCancel_def handlePointerUp_def Let_def)
  have same: "(map (\<lambda>a. if ann_id a = sel then a \<lparr> ann_x := vx, ann_y := vy \<rparr> else a) xs = xs) \<longleftrightarrow>
        (\<forall>a \<in> set xs. ann_id a = sel \<longrightarrow> ann_x a = vx \<and> ann_y a = vy)"
    for sel vx vy and xs :: "Annotation list"
  proof -
    have field: "(a \<lparr> ann_x := vx, ann_y := vy \<rparr> = a) \<longleftrightarrow> (ann_x a = vx \<and> ann_y a = vy)" for a :: Annotation
      by (cases a) auto
    have "(map (\<lambda>a. if ann_id a = sel then a \<lparr> ann_x := vx, ann_y := vy \<rparr> else a) xs = map (\<lambda>a. a) xs) \<longleftrightarrow>
        (\<forall>a \<in> set xs. (if ann_id a = sel then a \<lparr> ann_x := vx, ann_y := vy \<rparr> else a) = a)"
      by (rule map_eq_conv)
    then show ?thesis by (simp add: field)
  qed
  have keep: "annotations (onPointerCancel s) = annotations s"
    if "\<not> isDragging s \<or> localDragState s = None \<or> \<not> truthy (selectedAnnotationId s)"
    using that
    by (auto simp: onPointerCancel_def handlePointerUp_def truthy_def Let_def split: option.splits bool.splits)
  have discard: "onPointerCancel s = handlePointerUp s \<and>
      \<not> isDragging (onPointerCancel s) \<and> localDragState (onPointerCancel s) = None \<and>
      dragRectRef (onPointerCancel s) = None"
    by (simp add: onPointerCancel_def handlePointerUp_def Let_def)
  have iff: "annotations (onPointerCancel s) = annotations s \<longleftrightarrow>
         (\<forall>a \<in> set (annotations s). ann_id a = sel \<longrightarrow> ann_x a = drag_x l \<and> ann_y a = drag_y l)"
    if "isDragging s \<and> localDragState s = Some l \<and> selectedAnnotationId s = Some sel \<and> sel \<noteq> []" for l sel
    unfolding commit [OF that] by (rule same)
  show ?thesis
  proof (intro conjI allI impI)
    show "onPointerCancel s = handlePointerUp s" "\<not> isDragging (onPointerCancel s)"
      "localDragState (onPointerCancel s) = None" "dragRectRef (onPointerCancel s) = None"
      using discard by blast+
  qed (fact commit keep iff)+
qed

theorem onPointerCancel_commits_live_position_witness:
  "isDragging (handlePointerMove id \<lparr> clientX = 150, clientY = 125 \<rparr>
      (handlePointerDown (Some (example_rect 1000 500)) \<lparr> clientX = 100, clientY = 100 \<rparr> ''A'' example_canvas)) \<and>
   localDragState (handlePointerMove id \<lparr> clientX = 150, clientY = 125 \<rparr>
      (handlePointerDown (Some (example_rect 1000 500)) \<lparr> clientX = 100, clientY = 100 \<rparr> ''A'' example_canvas))
     = Some \<lparr> drag_id = ''A'', drag_x = 15, drag_y = 16 \<rparr> \<and>
   selectedAnnotationId (handlePointerMove id \<lparr> clientX = 150, clientY = 125 \<rparr>
      (handlePointerDown (Some (example_rect 1000 500)) \<lparr> clientX = 100, clientY = 100 \<rparr> ''A'' example_canvas))
     = Some ''A'' \<and>
   annotations (onPointerCancel (handlePointerMove id \<lparr> clientX = 150, clientY = 125 \<rparr>
      (handlePointerDown (Some (example_rect 1000 500)) \<lparr> clientX = 100, clientY = 100 \<rparr> ''A'' example_canvas)))
     = [newAnnotation ''A'' 15 16, newAnnotation ''B'' 50 50] \<and>
   localDragState example_canvas = None \<and>
   annotations (onPointerCancel example_canvas) = annotations example_canvas \<and>
   localDragState (handlePointerDown (Some (example_rect 1000 500)) \<lparr> clientX = 100, clientY = 100 \<rparr> ''A'' example_canvas)
     = Some \<lparr> drag_id = ''A'', drag_x = 10, drag_y = 10 \<rparr> \<and>
   annotations (onPointerCancel
      (handlePointerDown (Some (example_rect 1000 500)) \<lparr> clientX = 100, clientY = 100 \<rparr> ''A'' example_canvas))
     = annotations (handlePointerDown (Some (example_rect 1000 500)) \<lparr> clientX = 100, clientY = 100 \<rparr> ''A'' example_canvas)"
proof -
  let ?r = "example_rect 1000 500"
  let ?d = "handlePointerDown (Some ?r) \<lparr> clientX = 100, clientY = 100 \<rparr> ''A'' example_canvas"
  let ?m = "handlePointerMove id \<lparr> clientX = 150, clientY = 125 \<rparr> ?d"
  let ?l = "\<lparr> drag_id = ''A'', drag_x = 15, drag_y = 16 \<rparr>"
  have d: "?d = example_canvas \<lparr> dragRectRef := Some ?r, isDragging := True, selectedAnnotationId := Some ''A'',
        dragStart := \<lparr> pt_x = 100, pt_y = 100 \<rparr>, initialAnnPos := \<lparr> pt_x = 10, pt_y = 10 \<rparr>,
        localDragState := Some \<lparr> drag_id = ''A'', drag_x = 10, drag_y = 10 \<rparr> \<rparr>"
    by (simp add: handlePointerDown_def example_canvas_def newAnnotation_def)
  have m: "?m = example_canvas \<lparr> dragRectRef := Some ?r, isDragging := True, selectedAnnotationId := Some ''A'',
        dragStart := \<lparr> pt_x = 100, pt_y = 100 \<rparr>, initialAnnPos := \<lparr> pt_x = 10, pt_y = 10 \<rparr>,
        localDragState := Some ?l \<rparr>"
    unfolding d
    by (simp add: handlePointerMove_def truthy_def example_rect_def snapped_def Math_round_def
        GRID_SIZE_def Let_def)
  have h1: "isDragging ?m" and h2: "localDragState ?m = Some ?l" and h3: "selectedAnnotationId ?m = Some ''A''"
    unfolding m by simp_all
  have anns: "annotations ?m = [newAnnotation ''A'' 10 10, newAnnotation ''B'' 50 50]"
    unfolding m by (simp add: example_canvas_def)
  note commit = onPointerCancel_commits_live_position [of ?m, THEN conjunct2, THEN conjunct2,
      THEN conjunct2, THEN conjunct2, THEN conjunct1, rule_format, of ?l "''A''"]
  have "annotations (onPointerCancel ?m) =
      map (\<lambda>a. if ann_id a = ''A'' then a \<lparr> ann_x := drag_x ?l, ann_y := drag_y ?l \<rparr> else a) (annotations ?m)"
    using commit h1 h2 h3 by simp
  then have c: "annotations (onPointerCancel ?m) = [newAnnotation ''A'' 15 16, newAnnotation ''B'' 50 50]"
    unfolding anns by (simp add: newAnnotation_def)
  have n: "localDragState example_canvas = None" by (simp add: example_canvas_def)
  note keep = onPointerCancel_commits_live_position [of example_canvas, THEN conjunct2, THEN conjunct2,
      THEN conjunct2, THEN conjunct2, THEN conjunct2, THEN conjunct1]
  have k: "annotations (onPointerCancel example_canvas) = annotations example_canvas"
    using keep n by simp
  let ?l0 = "\<lparr> drag_id = ''A'', drag_x = 10, drag_y = 10 \<rparr>"
  have dl: "localDragState ?d = Some ?l0" unfolding d by simp
  have dh: "isDragging ?d \<and> localDragState ?d = Some ?l0 \<and> selectedAnnotationId ?d = Some ''A'' \<and> ''A'' \<noteq> []"
    unfolding d by simp
  note untouched = onPointerCancel_commits_live_position [of ?d, THEN conjunct2, THEN conjunct2,
      THEN conjunct2, THEN conjunct2, THEN conjunct2, THEN conjunct2, rule_format, OF dh]
  have "\<forall>a \<in> set (annotations ?d). ann_id a = ''A'' \<longrightarrow> ann_x a = drag_x ?l0 \<and> ann_y a = drag_y ?l0"
    unfolding d by (simp add: example_canvas_def newAnnotation_def)
  with untouched have u: "annotations (onPointerCancel ?d) = annotations ?d" by (rule iffD2)
  from h1 h2 h3 c n k dl u show ?thesis by (intro conjI)
qed

text \<open>
  Claim C2 as stated fails after a move: label \<open>A\<close> starts at x = 10, the pointer moves
  50 pixels to the right in a container 1000 pixels wide, and the cancel commits x = 15.
\<close>

theorem onPointerCancel_counterexample:
  "isDragging (handlePointerMove id \<lparr> clientX = 150, clientY = 125 \<rparr>
      (handlePointerDown (Some (example_rect 1000 500)) \<lparr> clientX = 100, clientY = 100 \<rparr> ''A'' example_canvas)) \<and>
   map ann_x (annotations (handlePointerMove id \<lparr> clientX = 150, clientY = 125 \<rparr>
      (handlePointerDown (Some (example_rect 1000 500)) \<lparr> clientX = 100, clientY = 100 \<rparr> ''A'' example_canvas))) = [10, 50] \<and>
   map ann_x (annotations (onPointerCancel (handlePointerMove id \<lparr> clientX = 150, clientY = 125 \<rparr>
      (handlePointerDown (Some (example_rect 1000 500)) \<lparr> clientX = 100, clientY = 100 \<rparr> ''A'' example_canvas)))) = [15, 50] \<and>
   annotations (onPointerCancel (handlePointerMove id \<lparr> clientX = 150, clientY = 125 \<rparr>
      (handlePointerDown (Some (example_rect 1000 500)) \<lparr> clientX = 100, clientY = 100 \<rparr> ''A'' example_canvas)))
     \<noteq> annotations (handlePointerMove id \<lparr> clientX = 150, clientY = 125 \<rparr>
      (handlePointerDown (Some (example_rect 1000 500)) \<lparr> clientX = 100, clientY = 100 \<rparr> ''A'' example_canvas))"
proof -
  let ?r = "example_rect 1000 500"
  let ?d = "handlePointerDown (Some ?r) \<lparr> clientX = 100, clientY = 100 \<rparr> ''A'' example_canvas"
  let ?m = "handlePointerMove id \<lparr> clientX = 150, clientY = 125 \<rparr> ?d"
  have d: "?d = example_canvas \<lparr> dragRectRef := Some ?r, isDragging := True, selectedAnnotationId := Some ''A'',
        dragStart := \<lparr> pt_x = 100, pt_y = 100 \<rparr>, initialAnnPos := \<lparr> pt_x = 10, pt_y = 10 \<rparr>,
        localDragState := Some \<lparr> drag_id = ''A'', drag_x = 10, drag_y = 10 \<rparr> \<rparr>"
    by (simp add: handlePointerDown_def example_canvas_def newAnnotation_def)
  have m: "?m = example_canvas \<lparr> dragRectRef := Some ?r, isDragging := True, selectedAnnotationId := Some ''A'',
        dragStart := \<lparr> pt_x = 100, pt_y = 100 \<rparr>, initialAnnPos := \<lparr> pt_x = 10, pt_y = 10 \<rparr>,
        localDragState := Some \<lparr> drag_id = ''A'', drag_x = 15, drag_y = 16 \<rparr> \<rparr>"
    unfolding d
    by (simp add: handlePointerMove_def truthy_def example_rect_def snapped_def Math_round_def
        GRID_SIZE_def Let_def)
  have 1: "isDragging ?m" unfolding m by simp
  have 2: "map ann_x (annotations ?m) = [10, 50]"
    unfolding m by (simp add: example_canvas_def newAnnotation_def)
  have 3: "map ann_x (annotations (onPointerCancel ?m)) = [15, 50]"
    unfolding m
    by (simp add: onPointerCancel_def handlePointerUp_def example_canvas_def newAnnotation_def)
  from 2 3 have 4: "annotations (onPointerCancel ?m) \<noteq> annotations ?m" by auto
  from 1 2 3 4 show ?thesis by (intro conjI)
qed

section \<open>Export compositor claims\<close>

lemma text_draws_append: "text_draws (xs @ ys) = text_draws xs @ text_draws ys"
  by (induction xs rule: text_draws.induct) simp_all

lemma text_draws_map_FillText: "text_draws (map FillText ts) = ts"
  by (induction ts) simp_all

lemma drawAnnotation_drawn:
  "drawn (drawAnnotation cw ch c a) = drawn c @ [FillText (label_draw cw ch a)]"
  by (simp add: drawAnnotation_def fillText_def label_draw_def Let_def)

lemma foldl_drawAnnotation_drawn:
  "drawn (foldl (drawAnnotation cw ch) c anns) = drawn c @ map (\<lambda>a. FillText (label_draw cw ch a)) anns"
  by (induction anns arbitrary: c) (simp_all add: drawAnnotation_drawn)

lemma generateCanvas_returned:
  "generateCanvas True (Some img) base s fb =
     Returned \<lparr> canvas_width = naturalWidth img, canvas_height = naturalHeight img,
                canvas_ctx = foldl (drawAnnotation (naturalWidth img) (naturalHeight img))
                  (drawImage (img_data base) 0 0
                     (if fb then fillRect 0 0 (real (naturalWidth img)) (real (naturalHeight img))
                                   (initial_ctx \<lparr> fillStyle := ''#ffffff'' \<rparr>)
                      else initial_ctx))
                  (annotations s) \<rparr>"
  by (simp add: generateCanvas_def Let_def)

lemma generateCanvas_ops:
  "outcome_ops (generateCanvas True (Some img) base s fb) =
     (if fb then [FillRect ''#ffffff'' 0 0 (real (naturalWidth img)) (real (naturalHeight img))] else []) @
     DrawImage (img_data base) 0 0 #
     map (\<lambda>a. FillText (label_draw (naturalWidth img) (naturalHeight img) a)) (annotations s)"
  by (simp add: generateCanvas_returned foldl_drawAnnotation_drawn drawImage_def fillRect_def initial_ctx_def)

lemma generateCanvas_comments:
  "generateCanvas ctx_ok loaded base (s \<lparr> comments := cs \<rparr>) fb = generateCanvas ctx_ok loaded base s fb"
  by (simp add: generateCanvas_def Let_def split: option.splits)

lemma handleExport_comments:
  "handleExport ctx_ok loaded win_ok base (s \<lparr> comments := cs \<rparr>) format = handleExport ctx_ok loaded win_ok base s format"
  by (simp add: handleExport_def generateCanvas_comments)

lemma handleExport_bitmap:
  assumes "exported_bitmap (handleExport ctx_ok loaded win_ok base s format) = Some cv"
  shows "generateCanvas ctx_ok loaded base s (format = Format_jpg \<or> format = Format_pdf) = Returned cv"
  using assms by (auto simp: handleExport_def Let_def split: Outcome.splits if_splits)

text \<open>
  Claim C6. When a 2D context is available and the base image has loaded,
  \<open>generateCanvas\<close> resolves to a bitmap of the image's native size whose drawing
  operations are: the white background fill if one was asked for, then the base image at
  \<open>(0,0)\<close>, then nothing but one text draw for each annotation, in store order, at
  \<open>((x/100) * width, (y/100) * height)\<close>. The result does not depend on the comments,
  and for every export format the exported bitmap is such a result of \<open>generateCanvas\<close>.
\<close>

theorem generateCanvas_draws_base_then_annotations:
  assumes "ctx_ok" and "loaded = Some img"
  shows "(\<exists>cv. generateCanvas ctx_ok loaded base s fb = Returned cv \<and>
            canvas_width cv = naturalWidth img \<and> canvas_height cv = naturalHeight img \<and>
            drawn (canvas_ctx cv) =
              (if fb then [FillRect ''#ffffff'' 0 0 (real (naturalWidth img)) (real (naturalHeight img))] else []) @
              DrawImage (img_data base) 0 0 # map FillText (text_draws (drawn (canvas_ctx cv))) \<and>
            map (\<lambda>t. (td_text t, td_x t, td_y t)) (text_draws (drawn (canvas_ctx cv))) =
              map (\<lambda>a. (ann_text a, (ann_x a / 100) * real (canvas_width cv), (ann_y a / 100) * real (canvas_height cv)))
                  (annotations s) \<and>
            (\<forall>cs. generateCanvas ctx_ok loaded base (s \<lparr> comments := cs \<rparr>) fb = Returned cv)) \<and>
         (\<forall>format win_ok cs. handleExport ctx_ok loaded win_ok base (s \<lparr> comments := cs \<rparr>) format
                              = handleExport ctx_ok loaded win_ok base s format) \<and>
         (\<forall>format win_ok cv. exported_bitmap (handleExport ctx_ok loaded win_ok base s format) = Some cv
              \<longrightarrow> generateCanvas ctx_ok loaded base s (format = Format_jpg \<or> format = Format_pdf) = Returned cv)"
proof (intro conjI allI impI)
  let ?W = "naturalWidth img" and ?H = "naturalHeight img"
  obtain cv where cv: "generateCanvas True (Some img) base s fb = Returned cv"
    and w: "canvas_width cv = ?W" and h: "canvas_height cv = ?H"
    by (simp add: generateCanvas_returned)
  have ops: "drawn (canvas_ctx cv) =
      (if fb then [FillRect ''#ffffff'' 0 0 (real ?W) (real ?H)] else []) @
      DrawImage (img_data base) 0 0 # map (\<lambda>a. FillText (label_draw ?W ?H a)) (annotations s)"
    using generateCanvas_ops [of img base s fb] by (simp add: cv)
  have td: "text_draws (drawn (canvas_ctx cv)) = map (label_draw ?W ?H) (annotations s)"
    using text_draws_map_FillText [of "map (label_draw ?W ?H) (annotations s)"]
    by (simp add: ops text_draws_append comp_def)
  have 1: "drawn (canvas_ctx cv) =
      (if fb then [FillRect ''#ffffff'' 0 0 (real ?W) (real ?H)] else []) @
      DrawImage (img_data base) 0 0 # map FillText (text_draws (drawn (canvas_ctx cv)))"
    unfolding td using ops by (simp add: comp_def)
  have 2: "map (\<lambda>t. (td_text t, td_x t, td_y t)) (text_draws (drawn (canvas_ctx cv))) =
      map (\<lambda>a. (ann_text a, (ann_x a / 100) * real (canvas_width cv), (ann_y a / 100) * real (canvas_height cv)))
          (annotations s)"
    unfolding td by (simp add: w h label_draw_def comp_def)
  have 3: "\<forall>cs. generateCanvas ctx_ok loaded base (s \<lparr> comments := cs \<rparr>) fb = Returned cv"
    using cv assms by (simp add: generateCanvas_comments)
  from cv w h 1 2 3 assms
  show "\<exists>cv. generateCanvas ctx_ok loaded base s fb = Returned cv \<and>
            canvas_width cv = naturalWidth img \<and> canvas_height cv = naturalHeight img \<and>
            drawn (canvas_ctx cv) =
              (if fb then [FillRect ''#ffffff'' 0 0 (real (naturalWidth img)) (real (naturalHeight img))] else []) @
              DrawImage (img_data base) 0 0 # map FillText (text_draws (drawn (canvas_ctx cv))) \<and>
            map (\<lambda>t. (td_text t, td_x t, td_y t)) (text_draws (drawn (canvas_ctx cv))) =
              map (\<lambda>a. (ann_text a, (ann_x a / 100) * real (canvas_width cv), (ann_y a / 100) * real (canvas_height cv)))
                  (annotations s) \<and>
            (\<forall>cs. generateCanvas ctx_ok loaded base (s \<lparr> comments := cs \<rparr>) fb = Returned cv)"
    by (intro exI [of _ cv]) simp
next
  fix format win_ok cs
  show "handleExport ctx_ok loaded win_ok base (s \<lparr> comments := cs \<rparr>) format
          = handleExport ctx_ok loaded win_ok base s format"
    by (rule handleExport_comments)
next
  fix format win_ok cv
  assume "exported_bitmap (handleExport ctx_ok loaded win_ok base s format) = Some cv"
  then show "generateCanvas ctx_ok loaded base s (format = Format_jpg \<or> format = Format_pdf) = Returned cv"
    by (rule handleExport_bitmap)
qed

text \<open>
  Claim C7, as the code has it. The font size of each annotation's text draw is
  \<open>max 12 (fontSize * (W / 800))\<close> for a canvas of native width \<open>W\<close>: the product of
  \<open>fontSize\<close> and the ratio of \<open>W\<close> to 800 whenever that product is at least 12, and
  12 pixels otherwise.
\<close>

theorem export_font_size_floor:
  assumes "ctx_ok"
  shows "map (\<lambda>t. font_px (td_font t)) (text_draws (outcome_ops (generateCanvas ctx_ok (Some img) base s fb)))
           = map (\<lambda>a. max 12 (ann_fontSize a * (real (naturalWidth img) / 800))) (annotations s) \<and>
         (\<forall>k < length (annotations s).
            12 \<le> ann_fontSize (annotations s ! k) * (real (naturalWidth img) / 800) \<longrightarrow>
            font_px (td_font (text_draws (outcome_ops (generateCanvas ctx_ok (Some img) base s fb)) ! k))
              = ann_fontSize (annotations s ! k) * (real (naturalWidth img) / 800))"
proof -
  let ?W = "naturalWidth img" and ?H = "naturalHeight img"
  have td: "text_draws (outcome_ops (generateCanvas ctx_ok (Some img) base s fb))
      = map (label_draw ?W ?H) (annotations s)"
    using assms text_draws_map_FillText [of "map (label_draw ?W ?H) (annotations s)"]
    by (simp add: generateCanvas_ops text_draws_append comp_def)
  show ?thesis unfolding td by (simp add: label_draw_def comp_def)
qed


theorem generateCanvas_draws_base_then_annotations_witness:
  "(\<exists>cv. generateCanvas True (Some \<lparr> naturalWidth = 1600, naturalHeight = 900 \<rparr>) (example_image ''1'')
             example_canvas False = Returned cv \<and>
         canvas_width cv = 1600 \<and> canvas_height cv = 900 \<and>
         drawn (canvas_ctx cv) =
           DrawImage ''data:image/png;base64,AAAA'' 0 0 # map FillText (text_draws (drawn (canvas_ctx cv))) \<and>
         map (\<lambda>t. (td_text t, td_x t, td_y t)) (text_draws (drawn (canvas_ctx cv)))
           = [(''New Text'', 160, 90), (''New Text'', 800, 450)])"
proof -
  let ?img = "\<lparr> naturalWidth = 1600, naturalHeight = 900 \<rparr>"
  have a: "True" and b: "Some ?img = Some ?img" by simp_all
  from generateCanvas_draws_base_then_annotations [OF a b, of "example_image ''1''" example_canvas False,
      THEN conjunct1]
  obtain cv where cv: "generateCanvas True (Some ?img) (example_image ''1'') example_canvas False = Returned cv"
    and w: "canvas_width cv = naturalWidth ?img" and h: "canvas_height cv = naturalHeight ?img"
    and ops: "drawn (canvas_ctx cv) =
        (if False then [FillRect ''#ffffff'' 0 0 (real (naturalWidth ?img)) (real (naturalHeight ?img))] else []) @
        DrawImage (img_data (example_image ''1'')) 0 0 # map FillText (text_draws (drawn (canvas_ctx cv)))"
    and pos: "map (\<lambda>t. (td_text t, td_x t, td_y t)) (text_draws (drawn (canvas_ctx cv))) =
        map (\<lambda>a. (ann_text a, (ann_x a / 100) * real (canvas_width cv), (ann_y a / 100) * real (canvas_height cv)))
            (annotations example_canvas)"
    by blast
  have w': "canvas_width cv = 1600" and h': "canvas_height cv = 900" using w h by simp_all
  have ops': "drawn (canvas_ctx cv) =
      DrawImage ''data:image/png;base64,AAAA'' 0 0 # map FillText (text_draws (drawn (canvas_ctx cv)))"
    using ops by (simp add: example_image_def)
  have pos': "map (\<lambda>t. (td_text t, td_x t, td_y t)) (text_draws (drawn (canvas_ctx cv)))
      = [(''New Text'', 160, 90), (''New Text'', 800, 450)]"
    unfolding pos w' h' by (simp add: example_canvas_def newAnnotation_def)
  from cv w' h' ops' pos' show ?thesis by (intro exI [of _ cv] conjI)
qed

theorem export_font_size_floor_witness:
  "map (\<lambda>t. font_px (td_font t))
       (text_draws (outcome_ops (generateCanvas True (Some \<lparr> naturalWidth = 1600, naturalHeight = 900 \<rparr>)
                                   (example_image ''1'') example_canvas True)))
     = [40, 40] \<and>
   12 \<le> ann_fontSize (annotations example_canvas ! 0) * (real 1600 / 800) \<and>
   font_px (td_font (text_draws (outcome_ops (generateCanvas True (Some \<lparr> naturalWidth = 1600, naturalHeight = 900 \<rparr>)
                                   (example_image ''1'') example_canvas True)) ! 0))
     = ann_fontSize (annotations example_canvas ! 0) * (real 1600 / 800)"
proof -
  let ?img = "\<lparr> naturalWidth = 1600, naturalHeight = 900 \<rparr>"
  let ?sizes = "map (\<lambda>t. font_px (td_font t))
       (text_draws (outcome_ops (generateCanvas True (Some ?img) (example_image ''1'') example_canvas True)))"
  note inst = export_font_size_floor [of True ?img "example_image ''1''" example_canvas True, OF TrueI]
  have "?sizes = map (\<lambda>a. max 12 (ann_fontSize a * (real (naturalWidth ?img) / 800))) (annotations example_canvas)"
    using inst by (rule conjunct1)
  then have 1: "?sizes = [40, 40]"
    by (simp add: example_canvas_def newAnnotation_def)
  have len: "0 < length (annotations example_canvas)" by (simp add: example_canvas_def)
  have 2: "12 \<le> ann_fontSize (annotations example_canvas ! 0) * (real 1600 / 800)"
    by (simp add: example_canvas_def newAnnotation_def)
  have 3: "font_px (td_font (text_draws (outcome_ops (generateCanvas True (Some ?img)
               (example_image ''1'') example_canvas True)) ! 0))
     = ann_fontSize (annotations example_canvas ! 0) * (real 1600 / 800)"
    using inst [THEN conjunct2, rule_format, of 0] len 2 by simp
  from 1 2 3 show ?thesis by (intro conjI)
qed

text \<open>
  Claim C7 as stated fails below the floor: at native width 400 a label of font size 20
  is drawn at 12 pixels, not at \<open>20 * (400 / 800) = 10\<close>.
\<close>

theorem export_font_size_counterexample:
  "font_px (td_font (text_draws (outcome_ops (generateCanvas True (Some \<lparr> naturalWidth = 400, naturalHeight = 300 \<rparr>)
                                   (example_image ''1'') example_canvas False)) ! 0)) = 12 \<and>
   ann_fontSize (annotations example_canvas ! 0) * (real 400 / 800) = 10"
proof -
  have "text_draws (outcome_ops (generateCanvas True (Some \<lparr> naturalWidth = 400, naturalHeight = 300 \<rparr>)
                                   (example_image ''1'') example_canvas False))
     = map (label_draw 400 300) (annotations example_canvas)"
    using text_draws_map_FillText [of "map (label_draw 400 300) (annotations example_canvas)"]
    by (simp add: generateCanvas_ops comp_def)
  then show ?thesis
    by (simp add: example_canvas_def newAnnotation_def label_draw_def)
qed

section \<open>Overlay store: update and delete\<close>

text \<open>
  Claim C9. For an id that no annotation has, \<open>updateAnnotation\<close> and
  \<open>deleteAnnotation\<close> leave the list as it is (both are total: no error can arise).
  \<open>updateAnnotation\<close> keeps the length of the list and every annotation with another
  id; in an annotation with the id, each field absent from \<open>updates\<close> keeps its value
  and each field present in \<open>updates\<close> takes the given value.
\<close>

theorem updateAnnotation_deleteAnnotation:
  "((\<forall>a \<in> set (annotations s). ann_id a \<noteq> tid) \<longrightarrow>
       updateAnnotation tid u (annotations s) = annotations s \<and>
       annotations (deleteAnnotation tid s) = annotations s) \<and>
   length (updateAnnotation tid u xs) = length xs \<and>
   (\<forall>k < length xs. ann_id (xs ! k) \<noteq> tid \<longrightarrow> updateAnnotation tid u xs ! k = xs ! k) \<and>
   (\<forall>k < length xs. ann_id (xs ! k) = tid \<longrightarrow>
      (upd_id u = None \<longrightarrow> ann_id (updateAnnotation tid u xs ! k) = ann_id (xs ! k)) \<and>
      (upd_x u = None \<longrightarrow> ann_x (updateAnnotation tid u xs ! k) = ann_x (xs ! k)) \<and>
      (upd_y u = None \<longrightarrow> ann_y (updateAnnotation tid u xs ! k) = ann_y (xs ! k)) \<and>
      (upd_text u = None \<longrightarrow> ann_text (updateAnnotation tid u xs ! k) = ann_text (xs ! k)) \<and>
      (upd_color u = None \<longrightarrow> ann_color (updateAnnotation tid u xs ! k) = ann_color (xs ! k)) \<and>
      (upd_fontSize u = None \<longrightarrow> ann_fontSize (updateAnnotation tid u xs ! k) = ann_fontSize (xs ! k)) \<and>
      (upd_fontWeight u = None \<longrightarrow> ann_fontWeight (updateAnnotation tid u xs ! k) = ann_fontWeight (xs ! k)) \<and>
      (upd_fontStyle u = None \<longrightarrow> ann_fontStyle (updateAnnotation tid u xs ! k) = ann_fontStyle (xs ! k)) \<and>
      (\<forall>v. upd_id u = Some v \<longrightarrow> ann_id (updateAnnotation tid u xs ! k) = v) \<and>
      (\<forall>v. upd_x u = Some v \<longrightarrow> ann_x (updateAnnotation tid u xs ! k) = v) \<and>
      (\<forall>v. upd_y u = Some v \<longrightarrow> ann_y (updateAnnotation tid u xs ! k) = v) \<and>
      (\<forall>v. upd_text u = Some v \<longrightarrow> ann_text (updateAnnotation tid u xs ! k) = v) \<and>
      (\<forall>v. upd_color u = Some v \<longrightarrow> ann_color (updateAnnotation tid u xs ! k) = v) \<and>
      (\<forall>v. upd_fontSize u = Some v \<longrightarrow> ann_fontSize (updateAnnotation tid u xs ! k) = v) \<and>
      (\<forall>v. upd_fontWeight u = Some v \<longrightarrow> ann_fontWeight (updateAnnotation tid u xs ! k) = v) \<and>
      (\<forall>v. upd_fontStyle u = Some v \<longrightarrow> ann_fontStyle (updateAnnotation tid u xs ! k) = v))"
proof (intro conjI)
  show "(\<forall>a \<in> set (annotations s). ann_id a \<noteq> tid) \<longrightarrow>
       updateAnnotation tid u (annotations s) = annotations s \<and>
       annotations (deleteAnnotation tid s) = annotations s"
  proof
    assume h: "\<forall>a \<in> set (annotations s). ann_id a \<noteq> tid"
    then have "map (\<lambda>a. if ann_id a = tid then spread_updates a u else a) (annotations s) = annotations s"
      by (intro map_idI) simp
    moreover from h have "filter (\<lambda>a. ann_id a \<noteq> tid) (annotations s) = annotations s"
      by (simp add: filter_id_conv)
    ultimately show "updateAnnotation tid u (annotations s) = annotations s \<and>
       annotations (deleteAnnotation tid s) = annotations s"
      by (simp add: updateAnnotation_def deleteAnnotation_def)
  qed
  show "length (updateAnnotation tid u xs) = length xs"
    by (simp add: updateAnnotation_def)
  show "\<forall>k < length xs. ann_id (xs ! k) \<noteq> tid \<longrightarrow> updateAnnotation tid u xs ! k = xs ! k"
    by (simp add: updateAnnotation_def)
qed (simp_all add: updateAnnotation_def spread_updates_def)


theorem updateAnnotation_deleteAnnotation_witness:
  "''Z'' \<notin> ann_id ` set (annotations example_canvas) \<and>
   updateAnnotation ''Z'' \<lparr> upd_id = None, upd_x = None, upd_y = None, upd_text = Some ''Hi'', upd_color = None,
       upd_fontSize = None, upd_fontWeight = None, upd_fontStyle = None \<rparr> (annotations example_canvas)
     = annotations example_canvas \<and>
   annotations (deleteAnnotation ''Z'' example_canvas) = annotations example_canvas \<and>
   ann_id ([newAnnotation ''A'' 10 10, newAnnotation ''B'' 50 50] ! 0) = ''A'' \<and>
   ann_text (updateAnnotation ''A'' \<lparr> upd_id = None, upd_x = None, upd_y = None, upd_text = Some ''Hi'', upd_color = None,
       upd_fontSize = None, upd_fontWeight = None, upd_fontStyle = None \<rparr>
       [newAnnotation ''A'' 10 10, newAnnotation ''B'' 50 50] ! 0) = ''Hi'' \<and>
   ann_x (updateAnnotation ''A'' \<lparr> upd_id = None, upd_x = None, upd_y = None, upd_text = Some ''Hi'', upd_color = None,
       upd_fontSize = None, upd_fontWeight = None, upd_fontStyle = None \<rparr>
       [newAnnotation ''A'' 10 10, newAnnotation ''B'' 50 50] ! 0) = 10 \<and>
   updateAnnotation ''A'' \<lparr> upd_id = None, upd_x = None, upd_y = None, upd_text = Some ''Hi'', upd_color = None,
       upd_fontSize = None, upd_fontWeight = None, upd_fontStyle = None \<rparr>
       [newAnnotation ''A'' 10 10, newAnnotation ''B'' 50 50] ! 1 = newAnnotation ''B'' 50 50"
proof -
  let ?u = "\<lparr> upd_id = None, upd_x = None, upd_y = None, upd_text = Some ''Hi'', upd_color = None,
       upd_fontSize = None, upd_fontWeight = None, upd_fontStyle = None \<rparr>"
  let ?xs = "[newAnnotation ''A'' 10 10, newAnnotation ''B'' 50 50]"
  have absent: "\<forall>a \<in> set (annotations example_canvas). ann_id a \<noteq> ''Z''"
    by (simp add: example_canvas_def newAnnotation_def)
  then have 1: "''Z'' \<notin> ann_id ` set (annotations example_canvas)" by auto
  note unknown = updateAnnotation_deleteAnnotation [of example_canvas "''Z''" ?u ?xs, THEN conjunct1, THEN mp, OF absent]
  note other = updateAnnotation_deleteAnnotation [of example_canvas "''A''" ?u ?xs, THEN conjunct2, THEN conjunct2,
      THEN conjunct1, rule_format, of 1]
  note same = updateAnnotation_deleteAnnotation [of example_canvas "''A''" ?u ?xs, THEN conjunct2, THEN conjunct2,
      THEN conjunct2, rule_format, of 0]
  have k0: "0 < length ?xs" and k1: "1 < length ?xs" by simp_all
  have id0: "ann_id (?xs ! 0) = ''A''" and id1: "ann_id (?xs ! 1) \<noteq> ''A''" by (simp_all add: newAnnotation_def)
  have f: "upd_text ?u = Some ''Hi''" "upd_x ?u = None" by simp_all
  have 2: "ann_text (updateAnnotation ''A'' ?u ?xs ! 0) = ''Hi''"
    using same [OF k0 id0] f(1) by blast
  have "ann_x (updateAnnotation ''A'' ?u ?xs ! 0) = ann_x (?xs ! 0)"
    using same [OF k0 id0] f(2) by blast
  then have 3: "ann_x (updateAnnotation ''A'' ?u ?xs ! 0) = 10" by (simp add: newAnnotation_def)
  have 4: "updateAnnotation ''A'' ?u ?xs ! 1 = newAnnotation ''B'' 50 50"
    using other [OF k1 id1] by simp
  from 1 unknown id0 2 3 4 show ?thesis by (intro conjI) simp_all
qed

section \<open>History navigator claims\<close>

text \<open>
  Claim C8. Whenever \<open>handleGenerate\<close> obtains a generated image (it is not already
  loading, the objective is not blank, analysis and generation succeed), the new entry
  is at index 0 of the history, in front of the old entries, and the cursor is 0; this
  holds for the empty and the non-empty history. Whenever \<open>handleEdit\<close> obtains an
  edited image of the current entry, the same holds. A failing save changes neither.
\<close>

theorem pushNewest_front_and_cursor:
  "(\<not> isLoading s \<and> trim (objective s) \<noteq> [] \<longrightarrow>
      history (handleGenerate (Inr ()) (Inr base64) saved now_id now_ts s) =
        \<lparr> img_id = toString now_id, img_data = base64, img_prompt = objective s, img_timestamp = now_ts,
          img_level = level s, img_style = style s \<rparr> # history s \<and>
      js_index (history (handleGenerate (Inr ()) (Inr base64) saved now_id now_ts s)) 0 =
        Some \<lparr> img_id = toString now_id, img_data = base64, img_prompt = objective s, img_timestamp = now_ts,
               img_level = level s, img_style = style s \<rparr> \<and>
      currentIndex (handleGenerate (Inr ()) (Inr base64) saved now_id now_ts s) = 0) \<and>
   (\<forall>current. js_index (history s) (currentIndex s) = Some current \<longrightarrow>
      history (handleEdit editPrompt (Inr base64) saved now_id now_ts s) =
        current \<lparr> img_id := toString now_id, img_data := base64, img_prompt := editPrompt,
                  img_timestamp := now_ts \<rparr> # history s \<and>
      js_index (history (handleEdit editPrompt (Inr base64) saved now_id now_ts s)) 0 =
        Some (current \<lparr> img_id := toString now_id, img_data := base64, img_prompt := editPrompt,
                        img_timestamp := now_ts \<rparr>) \<and>
      currentIndex (handleEdit editPrompt (Inr base64) saved now_id now_ts s) = 0)"
proof (intro conjI allI impI)
  assume g: "\<not> isLoading s \<and> trim (objective s) \<noteq> []"
  let ?new = "\<lparr> img_id = toString now_id, img_data = base64, img_prompt = objective s, img_timestamp = now_ts,
          img_level = level s, img_style = style s \<rparr>"
  from g show h: "history (handleGenerate (Inr ()) (Inr base64) saved now_id now_ts s) = ?new # history s"
    by (cases saved) (simp_all add: handleGenerate_def catch_error_def finally_reset_def Let_def)
  then show "js_index (history (handleGenerate (Inr ()) (Inr base64) saved now_id now_ts s)) 0 = Some ?new"
    by (simp add: js_index_def)
  from g show "currentIndex (handleGenerate (Inr ()) (Inr base64) saved now_id now_ts s) = 0"
    by (cases saved) (simp_all add: handleGenerate_def catch_error_def finally_reset_def Let_def)
next
  fix current
  assume e: "js_index (history s) (currentIndex s) = Some current"
  then have ne: "length (history s) \<noteq> 0" by (auto simp: js_index_def split: if_splits)
  let ?new = "current \<lparr> img_id := toString now_id, img_data := base64, img_prompt := editPrompt,
                  img_timestamp := now_ts \<rparr>"
  from e ne show h: "history (handleEdit editPrompt (Inr base64) saved now_id now_ts s) = ?new # history s"
    by (cases saved) (simp_all add: handleEdit_def catch_error_def finally_reset_def Let_def)
  then show "js_index (history (handleEdit editPrompt (Inr base64) saved now_id now_ts s)) 0 = Some ?new"
    by (simp add: js_index_def)
  from e ne show "currentIndex (handleEdit editPrompt (Inr base64) saved now_id now_ts s) = 0"
    by (cases saved) (simp_all add: handleEdit_def catch_error_def finally_reset_def Let_def)
qed

theorem pushNewest_front_and_cursor_witness:
  "\<not> isLoading (example_editor []) \<and> trim (objective (example_editor [])) \<noteq> [] \<and>
   history (handleGenerate (Inr ()) (Inr ''data:image/svg+xml;base64,BBBB'') None 1700000000000 1700000000001
              (example_editor [])) =
     [\<lparr> img_id = toString 1700000000000, img_data = ''data:image/svg+xml;base64,BBBB'',
        img_prompt = ''sales dashboard'', img_timestamp = 1700000000001,
        img_level = Operational, img_style = Modern_SaaS \<rparr>] \<and>
   currentIndex (handleGenerate (Inr ()) (Inr ''data:image/svg+xml;base64,BBBB'') None 1700000000000 1700000000001
              (example_editor [])) = 0 \<and>
   js_index (history (example_editor [example_image ''1''])) (currentIndex (example_editor [example_image ''1'']))
     = Some (example_image ''1'') \<and>
   history (handleEdit ''darker'' (Inr ''data:image/svg+xml;base64,CCCC'') None 1700000000002 1700000000003
              (example_editor [example_image ''1''])) =
     [(example_image ''1'') \<lparr> img_id := toString 1700000000002, img_data := ''data:image/svg+xml;base64,CCCC'',
         img_prompt := ''darker'', img_timestamp := 1700000000003 \<rparr>, example_image ''1''] \<and>
   currentIndex (handleEdit ''darker'' (Inr ''data:image/svg+xml;base64,CCCC'') None 1700000000002 1700000000003
              (example_editor [example_image ''1''])) = 0"
proof -
  let ?s0 = "example_editor []" and ?s1 = "example_editor [example_image ''1'']"
  have g: "\<not> isLoading ?s0 \<and> trim (objective ?s0) \<noteq> []"
    by (simp add: example_editor_def trim_def is_space_def)
  have e: "js_index (history ?s1) (currentIndex ?s1) = Some (example_image ''1'')"
    by (simp add: example_editor_def js_index_def)
  note gen = pushNewest_front_and_cursor [of ?s0 "''data:image/svg+xml;base64,BBBB''" None 1700000000000
      1700000000001 "''darker''", THEN conjunct1, rule_format, OF g]
  note edit = pushNewest_front_and_cursor [of ?s1 "''data:image/svg+xml;base64,CCCC''" None 1700000000002
      1700000000003 "''darker''", THEN conjunct2, rule_format, OF e]
  have 1: "history (handleGenerate (Inr ()) (Inr ''data:image/svg+xml;base64,BBBB'') None 1700000000000 1700000000001 ?s0) =
     [\<lparr> img_id = toString 1700000000000, img_data = ''data:image/svg+xml;base64,BBBB'',
        img_prompt = ''sales dashboard'', img_timestamp = 1700000000001,
        img_level = Operational, img_style = Modern_SaaS \<rparr>]"
    using gen [THEN conjunct1] by (simp add: example_editor_def)
  have 2: "currentIndex (handleGenerate (Inr ()) (Inr ''data:image/svg+xml;base64,BBBB'') None 1700000000000 1700000000001 ?s0) = 0"
    using gen by (elim conjE)
  have 3: "history (handleEdit ''darker'' (Inr ''data:image/svg+xml;base64,CCCC'') None 1700000000002 1700000000003 ?s1) =
     [(example_image ''1'') \<lparr> img_id := toString 1700000000002, img_data := ''data:image/svg+xml;base64,CCCC'',
         img_prompt := ''darker'', img_timestamp := 1700000000003 \<rparr>, example_image ''1'']"
    using edit [THEN conjunct1] by (simp add: example_editor_def)
  have 4: "currentIndex (handleEdit ''darker'' (Inr ''data:image/svg+xml;base64,CCCC'') None 1700000000002 1700000000003 ?s1) = 0"
    using edit by (elim conjE)
  from g e 1 2 3 4 show ?thesis by (intro conjI) simp_all
qed

lemma js_index_in_range:
  "js_index arr index = None \<longleftrightarrow> \<not> (0 \<le> index \<and> index < int (length arr))"
  by (simp add: js_index_def)

text \<open>
  Claim C1, as the code has it. \<open>handleJumpToHistory\<close> sets the cursor to exactly the
  index it is given, in range or not, leaves the history list unchanged and cannot fail;
  for an in-range index it also restores style and level from that entry, otherwise it
  leaves them. The range is kept by the callers: from an in-range cursor, the undo and
  redo buttons (gated by \<open>canUndo\<close> and \<open>canRedo\<close>) and the thumbnail buttons lead to
  an in-range cursor.
\<close>

theorem handleJumpToHistory_sets_cursor:
  "currentIndex (handleJumpToHistory index s) = index \<and>
   history (handleJumpToHistory index s) = history s \<and>
   (\<forall>entry. js_index (history s) index = Some entry \<longrightarrow>
      style (handleJumpToHistory index s) = img_style entry \<and>
      level (handleJumpToHistory index s) = img_level entry) \<and>
   (js_index (history s) index = None \<longrightarrow>
      style (handleJumpToHistory index s) = style s \<and> level (handleJumpToHistory index s) = level s) \<and>
   (0 \<le> currentIndex s \<and> currentIndex s < int (length (history s)) \<longrightarrow>
      (0 \<le> currentIndex (onUndo s) \<and> currentIndex (onUndo s) < int (length (history (onUndo s)))) \<and>
      (0 \<le> currentIndex (onRedo s) \<and> currentIndex (onRedo s) < int (length (history (onRedo s)))) \<and>
      (\<forall>k. 0 \<le> currentIndex (onThumbnailClick k s) \<and>
            currentIndex (onThumbnailClick k s) < int (length (history (onThumbnailClick k s)))))"
  by (auto simp: handleJumpToHistory_def onUndo_def onRedo_def onThumbnailClick_def canUndo_def canRedo_def
      Let_def split: option.splits)

theorem handleJumpToHistory_sets_cursor_witness:
  "currentIndex (handleJumpToHistory 1 (example_editor [example_image ''2'', example_image ''1''])) = 1 \<and>
   js_index (history (example_editor [example_image ''2'', example_image ''1''])) 1 = Some (example_image ''1'') \<and>
   style (handleJumpToHistory 1 (example_editor [example_image ''2'', example_image ''1''])) = Minimalist \<and>
   level (handleJumpToHistory 1 (example_editor [example_image ''2'', example_image ''1''])) = Analytical \<and>
   js_index (history (example_editor [example_image ''2'', example_image ''1''])) 7 = None \<and>
   style (handleJumpToHistory 7 (example_editor [example_image ''2'', example_image ''1''])) = Modern_SaaS \<and>
   currentIndex (onUndo (example_editor [example_image ''2'', example_image ''1''])) = 1 \<and>
   currentIndex (onRedo (example_editor [example_image ''2'', example_image ''1''])) = 0"
proof -
  let ?s = "example_editor [example_image ''2'', example_image ''1'']"
  note at1 = handleJumpToHistory_sets_cursor [of 1 ?s]
  note at7 = handleJumpToHistory_sets_cursor [of 7 ?s]
  have e1: "js_index (history ?s) 1 = Some (example_image ''1'')"
    by (simp add: js_index_def example_editor_def)
  have e7: "js_index (history ?s) 7 = None"
    by (simp add: js_index_def example_editor_def)
  have 1: "currentIndex (handleJumpToHistory 1 ?s) = 1" using at1 by (elim conjE)
  have "style (handleJumpToHistory 1 ?s) = img_style (example_image ''1'') \<and>
        level (handleJumpToHistory 1 ?s) = img_level (example_image ''1'')"
    using at1 [THEN conjunct2, THEN conjunct2, THEN conjunct1, rule_format, OF e1] .
  then have 2: "style (handleJumpToHistory 1 ?s) = Minimalist" and 3: "level (handleJumpToHistory 1 ?s) = Analytical"
    by (simp_all add: example_image_def)
  have "style (handleJumpToHistory 7 ?s) = style ?s"
    using at7 [THEN conjunct2, THEN conjunct2, THEN conjunct2, THEN conjunct1, rule_format, OF e7] by (elim conjE)
  then have 4: "style (handleJumpToHistory 7 ?s) = Modern_SaaS" by (simp add: example_editor_def)
  have 5: "currentIndex (onUndo ?s) = 1"
    by (simp add: onUndo_def canUndo_def handleJumpToHistory_def js_index_def example_editor_def)
  have 6: "currentIndex (onRedo ?s) = 0"
    by (simp add: onRedo_def canRedo_def example_editor_def)
  from 1 e1 2 3 e7 4 5 6 show ?thesis by (intro conjI)
qed

text \<open>
  Claim C1 as stated fails: with one history entry and the cursor at 0, index 5 is out
  of range, yet the jump is not rejected and the cursor becomes 5.
\<close>

theorem handleJumpToHistory_counterexample:
  "js_index (history (example_editor [example_image ''1''])) 5 = None \<and>
   currentIndex (example_editor [example_image ''1'']) = 0 \<and>
   currentIndex (handleJumpToHistory 5 (example_editor [example_image ''1''])) = 5"
  by (simp add: handleJumpToHistory_def js_index_def example_editor_def)

text \<open>The two scenarios of the specification, run on the model.\<close>

lemma zorder_scenario:
  "sendToBack ''C'' [newAnnotation ''A'' 1 1, newAnnotation ''B'' 2 2, newAnnotation ''C'' 3 3]
     = [newAnnotation ''C'' 3 3, newAnnotation ''A'' 1 1, newAnnotation ''B'' 2 2] \<and>
   moveForward ''C'' [newAnnotation ''C'' 3 3, newAnnotation ''A'' 1 1, newAnnotation ''B'' 2 2]
     = [newAnnotation ''A'' 1 1, newAnnotation ''C'' 3 3, newAnnotation ''B'' 2 2]"
  by (simp add: sendToBack_def moveForward_def splice1_def swap_elems_def newAnnotation_def)

lemma history_scenario:
  "currentIndex (onUndo (example_editor [example_image ''2'', example_image ''1''])) = 1 \<and>
   currentIndex (onRedo (onUndo (example_editor [example_image ''2'', example_image ''1'']))) = 0 \<and>
   currentIndex (onUndo (onUndo (example_editor [example_image ''2'', example_image ''1'']))) = 1 \<and>
   currentIndex (onRedo (example_editor [example_image ''2'', example_image ''1''])) = 0"
  by (simp add: onUndo_def onRedo_def canUndo_def canRedo_def handleJumpToHistory_def js_index_def
      example_editor_def)

end
